theory Spec2Isabelle
  imports Complex_Main
begin

section \<open>LIORA identity coherence sentinel (liora\_observer.py)\<close>

text \<open>
  The module works on NumPy arrays of double precision numbers. The embedding has two
  levels.

  The Sentinel itself (constructor, \<open>observe\<close>, the bounded window, the audit trail) is
  embedded with the numbers taken as mathematical reals: a vector is a \<open>real list\<close>,
  arithmetic is exact, and there is no NaN, no infinity and no rounding except the
  explicit \<open>round(x, 6)\<close> of the audit event. The properties of the control flow and of
  the state are stated at this level.

  The numeric path of the module (\<open>normalize\<close>, the cosine distance, the comparison with
  the threshold) is embedded a second time over IEEE 754 binary64 numbers, with rounding
  to nearest, overflow to infinity, underflow to zero and NaN. The properties of the
  numbers that the code computes are stated at this level.

  The functions of NumPy, SciPy, hashlib, json and datetime that the module calls are not
  part of the repository. The numeric ones and the JSON encoder are modelled from the
  words of the specification and from the documented behaviour of the libraries; the
  digest and the clock are parameters.
  The calls to \<open>logging\<close> write to the process-wide logger only and touch no field of
  the Sentinel; they are left out.
\<close>

subsection \<open>Errors\<close>

text \<open>
  \<open>ZeroVector\<close> is the \<open>ValueError("Zero vector detected during normalization.")\<close>
  of \<open>normalize\<close>; \<open>ShapeMismatch\<close> is the \<open>ValueError\<close> SciPy raises for vectors of
  different lengths; \<open>NegativeMaxlen\<close> is the \<open>ValueError\<close> of \<open>deque(maxlen=...)\<close> for
  a negative bound; \<open>IOFailure\<close> is the \<open>OSError\<close> of \<open>open(filename, "w")\<close>;
  \<open>NotSerializable\<close> is the \<open>TypeError\<close> of \<open>json.dump\<close> for an object it cannot
  encode; \<open>DecodeError\<close> is the \<open>JSONDecodeError\<close> of \<open>json.load\<close> for a text that is
  not a JSON document.
\<close>

datatype error =
  ZeroVector | ShapeMismatch | NegativeMaxlen | IOFailure | NotSerializable | DecodeError

subsection \<open>Helpers\<close>

text \<open>
  Modelled from the spec: \<open>np.linalg.norm\<close>, which is not in the repository; the
  specification calls it the Euclidean (L2) norm.
\<close>

definition linalg_norm :: "real list \<Rightarrow> real" where
  "linalg_norm v = sqrt (\<Sum>x\<leftarrow>v. x * x)"

text \<open>
  \<open>normalize\<close> (the name is taken by a constant of HOL, hence the suffix): the norm is
  compared with zero before the division, and the quotient \<open>v / n\<close> is a new array.
\<close>

definition normalize_v :: "real list \<Rightarrow> error + real list" where
  "normalize_v v =
     (let n = linalg_norm v
      in if n = 0 then Inl ZeroVector else Inr (map (\<lambda>x. x / n) v))"

text \<open>
  \<open>stable_vector_hash\<close>: the SHA-256 hex digest of the float64 byte image of the
  vector. The composition of \<open>tobytes\<close>, \<open>hashlib.sha256\<close> and \<open>hexdigest\<close> is the
  parameter \<open>digest\<close>.
\<close>

definition stable_vector_hash :: "(real list \<Rightarrow> string) \<Rightarrow> real list \<Rightarrow> string" where
  "stable_vector_hash digest v = digest v"

text \<open>
  Modelled from the spec: \<open>scipy.spatial.distance.cosine\<close>, which is not in the
  repository. The specification defines the cosine distance as one minus the cosine
  similarity, the dot product divided by the two norms. SciPy takes the dot product
  with \<open>np.dot\<close>, which refuses vectors of different lengths with a \<open>ValueError\<close>.
  For a vector of norm zero SciPy yields NaN; the model has \<open>x / 0 = 0\<close> there, and
  \<open>observe\<close> never reaches that case, since both arguments are normalized.
\<close>

definition dot :: "real list \<Rightarrow> real list \<Rightarrow> real" where
  "dot u v = (\<Sum>(x, y)\<leftarrow>zip u v. x * y)"

definition cosine :: "real list \<Rightarrow> real list \<Rightarrow> error + real" where
  "cosine u v =
     (if length u \<noteq> length v then Inl ShapeMismatch
      else Inr (1 - dot u v / sqrt (dot u u * dot v v)))"

text \<open>
  Modelled from the spec: \<open>np.mean\<close>, which is not in the repository; the arithmetic
  mean of the values in the window. For an empty window NumPy yields NaN with a
  warning; the model has \<open>0 / 0 = 0\<close> there.
\<close>

definition mean :: "real list \<Rightarrow> real" where
  "mean xs = sum_list xs / real (length xs)"

text \<open>
  Modelled from the spec: Python's built-in \<open>round(x, ndigits)\<close>, which is not in the
  repository; rounding to a fixed number of fractional decimal digits, ties going to
  the even neighbour.
\<close>

definition round_half_even :: "real \<Rightarrow> int" where
  "round_half_even x =
     (let f = \<lfloor>x\<rfloor>; r = x - of_int f
      in if r < 1 / 2 then f
         else if 1 / 2 < r then f + 1
         else if even f then f else f + 1)"

definition py_round :: "real \<Rightarrow> nat \<Rightarrow> real" where
  "py_round x ndigits = of_int (round_half_even (x * 10 ^ ndigits)) / 10 ^ ndigits"

subsection \<open>The bounded window\<close>

text \<open>
  \<open>collections.deque(maxlen=n)\<close>: \<open>append\<close> adds on the right and, when the bound is
  exceeded, drops one element on the left.
\<close>

record deque =
  maxlen :: nat
  items :: "real list"

definition deque_append :: "deque \<Rightarrow> real \<Rightarrow> deque" where
  "deque_append d x =
     (let ys = items d @ [x]
      in d\<lparr>items := (if maxlen d < length ys then tl ys else ys)\<rparr>)"

subsection \<open>The Sentinel\<close>

record 'sid event =
  timestamp :: string
  step_id :: "'sid option"
  drift_raw :: real
  drift_avg :: real
  threshold :: real
  status :: string
  origin_hash :: string
  action_required :: bool

record 'sid sentinel =
  origin_tii :: "real list"
  threshold :: real
  origin_hash :: string
  history :: "'sid event list"
  recent_drifts :: deque

text \<open>
  \<open>LioraSentinel.__init__\<close>. The origin is normalized first, so a zero origin fails
  before anything else is built.
\<close>

definition LioraSentinel ::
  "(real list \<Rightarrow> string) \<Rightarrow> real list \<Rightarrow> real \<Rightarrow> int \<Rightarrow> error + 'sid sentinel" where
  "LioraSentinel digest origin thr window_size =
     (case normalize_v origin of
        Inl e \<Rightarrow> Inl e
      | Inr origin_n \<Rightarrow>
          if window_size < 0 then Inl NegativeMaxlen
          else Inr \<lparr>origin_tii = origin_n,
                    threshold = thr,
                    origin_hash = stable_vector_hash digest origin_n,
                    history = [],
                    recent_drifts = \<lparr>maxlen = nat window_size, items = []\<rparr>\<rparr>)"

text \<open>
  \<open>LioraSentinel.observe\<close>. The state is threaded through the statements in the order
  of the source, and the state is returned also when the call raises, so that what an
  exception leaves behind is visible. \<open>now\<close> is the reading of the clock.
\<close>

definition observe ::
  "'sid sentinel \<Rightarrow> real list \<Rightarrow> 'sid option \<Rightarrow> string
     \<Rightarrow> 'sid sentinel \<times> (error + bool \<times> real \<times> real)" where
  "observe s current_tii timestep_id now =
     (case normalize_v current_tii of
        Inl e \<Rightarrow> (s, Inl e)
      | Inr current_n \<Rightarrow>
          (case cosine (origin_tii s) current_n of
             Inl e \<Rightarrow> (s, Inl e)
           | Inr drift \<Rightarrow>
               (let s1 = s\<lparr>recent_drifts := deque_append (recent_drifts s) drift\<rparr>;
                    avg_drift = mean (items (recent_drifts s1));
                    is_safe = (drift \<le> sentinel.threshold s1);
                    status = (if is_safe then ''COHERENT'' else ''DRIFT_ALERT'');
                    event = \<lparr>timestamp = now,
                             step_id = timestep_id,
                             drift_raw = py_round drift 6,
                             drift_avg = py_round avg_drift 6,
                             threshold = sentinel.threshold s1,
                             status = status,
                             origin_hash = sentinel.origin_hash s1,
                             action_required = (\<not> is_safe)\<rparr>;
                    s2 = s1\<lparr>history := history s1 @ [event]\<rparr>
                in if is_safe then (s2, Inr (True, drift, avg_drift))
                   else (s2, Inr (False, drift, avg_drift)))))"

text \<open>
  A caller that makes one call of \<open>observe\<close> after the other, each with its vector, its
  step identifier and the clock reading of that moment, and keeps the outcome of every
  call (an exception is caught and the next call is made on the same Sentinel).
\<close>

fun observe_all ::
  "'sid sentinel \<Rightarrow> (real list \<times> 'sid option \<times> string) list
     \<Rightarrow> 'sid sentinel \<times> (error + bool \<times> real \<times> real) list" where
  "observe_all s [] = (s, [])"
| "observe_all s ((v, sid, now) # calls) =
     (case observe s v sid now of
        (s1, r) \<Rightarrow> (case observe_all s1 calls of (s2, rs) \<Rightarrow> (s2, r # rs)))"

text \<open>
  The part of an outcome of \<open>observe\<close> that the decision consists of: the error, or the
  pair \<open>(is_safe, drift)\<close> without the diagnostic average.
\<close>

definition decision_of :: "error + bool \<times> real \<times> real \<Rightarrow> error + bool \<times> real" where
  "decision_of r = (case r of Inl e \<Rightarrow> Inl e | Inr (is_safe, drift, avg_drift) \<Rightarrow> Inr (is_safe, drift))"

text \<open>The status label that goes with a successful outcome of \<open>observe\<close>.\<close>

definition label :: "bool \<times> real \<times> real \<Rightarrow> string" where
  "label out = (case out of (is_safe, drift, avg_drift) \<Rightarrow> if is_safe then ''COHERENT'' else ''DRIFT_ALERT'')"

subsection \<open>Double precision numbers\<close>

text \<open>
  A value of NumPy's \<open>float64\<close>: a finite number, one of the two infinities, or NaN.
  \<open>Fin x\<close> stands for a double when \<open>x\<close> is representable; every result of the
  operations below is. The sign of zero is not modelled: \<open>Fin 0\<close> stands for both
  \<open>0.0\<close> and \<open>-0.0\<close>, which the comparisons of the module do not tell apart.
\<close>

datatype f64 = Fin real | PInf | NInf | NaN

text \<open>
  The power of two with an integer exponent, kept as a constant of its own so that
  large powers are never expanded into numerals.
\<close>

definition pow2 :: "int \<Rightarrow> real" where
  "pow2 k = 2 powr of_int k"

text \<open>
  Rounding of a real to the nearest double, ties to the even significand. The spacing
  of doubles near \<open>x\<close> is \<open>2 ^ e\<close> with \<open>e = \<lfloor>log\<^sub>2 \<bar>x\<bar>\<rfloor> - 52\<close> (53 bits of significand),
  and never less than \<open>2 ^ - 1074\<close> (subnormal numbers); a result of magnitude
  \<open>2 ^ 1024\<close> or more is an infinity, and a number below half the least subnormal
  rounds to zero.
\<close>

definition rnd :: "real \<Rightarrow> f64" where
  "rnd x =
     (if x = 0 then Fin 0
      else
        (let e = max (\<lfloor>log 2 \<bar>x\<bar>\<rfloor> - 52) (- 1074);
             y = of_int (round_half_even (x / pow2 e)) * pow2 e
         in if pow2 1024 \<le> \<bar>y\<bar> then (if 0 < x then PInf else NInf) else Fin y))"

text \<open>
  The arithmetic of IEEE 754 as NumPy performs it on \<open>float64\<close>: the exact result,
  rounded; NaN from NaN, from \<open>\<infinity> - \<infinity>\<close>, \<open>0 * \<infinity>\<close>, \<open>0 / 0\<close>, \<open>\<infinity> / \<infinity>\<close> and from the
  square root of a negative number; an infinity from a division of a non-zero number by
  zero (NumPy warns and does not raise). Comparisons with NaN are false.
\<close>

fun fneg :: "f64 \<Rightarrow> f64" where
  "fneg (Fin x) = Fin (- x)"
| "fneg PInf = NInf"
| "fneg NInf = PInf"
| "fneg NaN = NaN"

fun fadd :: "f64 \<Rightarrow> f64 \<Rightarrow> f64" where
  "fadd (Fin x) (Fin y) = rnd (x + y)"
| "fadd NaN b = NaN"
| "fadd a NaN = NaN"
| "fadd PInf NInf = NaN"
| "fadd NInf PInf = NaN"
| "fadd PInf b = PInf"
| "fadd NInf b = NInf"
| "fadd a PInf = PInf"
| "fadd a NInf = NInf"

definition fsub :: "f64 \<Rightarrow> f64 \<Rightarrow> f64" where
  "fsub a b = fadd a (fneg b)"

definition inf_of_sign :: "bool \<Rightarrow> f64" where
  "inf_of_sign positive = (if positive then PInf else NInf)"

fun fmul :: "f64 \<Rightarrow> f64 \<Rightarrow> f64" where
  "fmul (Fin x) (Fin y) = rnd (x * y)"
| "fmul NaN b = NaN"
| "fmul a NaN = NaN"
| "fmul (Fin x) PInf = (if x = 0 then NaN else inf_of_sign (0 < x))"
| "fmul (Fin x) NInf = (if x = 0 then NaN else inf_of_sign (x < 0))"
| "fmul PInf (Fin y) = (if y = 0 then NaN else inf_of_sign (0 < y))"
| "fmul NInf (Fin y) = (if y = 0 then NaN else inf_of_sign (y < 0))"
| "fmul PInf PInf = PInf"
| "fmul PInf NInf = NInf"
| "fmul NInf PInf = NInf"
| "fmul NInf NInf = PInf"

fun fdiv :: "f64 \<Rightarrow> f64 \<Rightarrow> f64" where
  "fdiv (Fin x) (Fin y) =
     (if y = 0 then (if x = 0 then NaN else inf_of_sign (0 < x)) else rnd (x / y))"
| "fdiv NaN b = NaN"
| "fdiv a NaN = NaN"
| "fdiv (Fin x) PInf = Fin 0"
| "fdiv (Fin x) NInf = Fin 0"
| "fdiv PInf (Fin y) = inf_of_sign (0 \<le> y)"
| "fdiv NInf (Fin y) = inf_of_sign (y < 0)"
| "fdiv a b = NaN"

fun fsqrt :: "f64 \<Rightarrow> f64" where
  "fsqrt (Fin x) = (if x < 0 then NaN else rnd (sqrt x))"
| "fsqrt PInf = PInf"
| "fsqrt NInf = NaN"
| "fsqrt NaN = NaN"

fun fle :: "f64 \<Rightarrow> f64 \<Rightarrow> bool" where
  "fle NaN b = False"
| "fle a NaN = False"
| "fle NInf b = True"
| "fle a PInf = True"
| "fle PInf b = False"
| "fle a NInf = False"
| "fle (Fin x) (Fin y) = (x \<le> y)"

text \<open>
  Modelled from the spec: \<open>np.clip(a, lo, hi)\<close>, which is not in the repository; the
  value brought into the interval, NaN staying NaN.
\<close>

fun fclip :: "f64 \<Rightarrow> f64 \<Rightarrow> f64 \<Rightarrow> f64" where
  "fclip NaN lo hi = NaN"
| "fclip a lo hi = (if fle a lo then lo else if fle hi a then hi else a)"

subsection \<open>The numeric path in double precision\<close>

text \<open>
  Modelled from the spec: \<open>np.dot\<close> and \<open>np.linalg.norm\<close> on vectors of \<open>float64\<close>,
  which are not in the repository. The dot product rounds every product and every
  partial sum, and the sum is taken from left to right (the order in which a BLAS adds
  is not fixed by NumPy; the bounds proved below hold for this order). The norm of a
  vector is the square root of its dot product with itself, the squares being taken
  without scaling, as NumPy does.
\<close>

definition fdot :: "f64 list \<Rightarrow> f64 list \<Rightarrow> f64" where
  "fdot u v = foldl fadd (Fin 0) (map2 fmul u v)"

definition fnorm :: "f64 list \<Rightarrow> f64" where
  "fnorm v = fsqrt (fdot v v)"

text \<open>
  \<open>normalize\<close> on doubles, the argument being the array after its conversion by
  \<open>np.asarray(v, dtype=np.float64)\<close>: the computed norm is compared with \<open>0.0\<close>, and
  every component is divided by it.
\<close>

definition normalize_f64 :: "f64 list \<Rightarrow> error + f64 list" where
  "normalize_f64 v =
     (let n = fnorm v
      in if n = Fin 0 then Inl ZeroVector else Inr (map (\<lambda>x. fdiv x n) v))"

text \<open>
  \<open>normalize\<close> on a store of arrays, for the question which array the result is. The
  store is the list of the arrays allocated so far and an address is an index into it.
  \<open>np.asarray\<close> does not copy an array that already holds \<open>float64\<close>, so the argument
  is read at its address; the quotient \<open>v / n\<close> is allocated at the next free address,
  and that address is returned. When \<open>normalize\<close> raises, nothing is allocated.
\<close>

definition normalize_st :: "f64 list list \<Rightarrow> nat \<Rightarrow> f64 list list \<times> (error + nat)" where
  "normalize_st st a =
     (case normalize_f64 (st ! a) of
        Inl e \<Rightarrow> (st, Inl e)
      | Inr u \<Rightarrow> (st @ [u], Inr (length st)))"

text \<open>
  Modelled from the spec: \<open>scipy.spatial.distance.cosine\<close> on doubles, which is not in
  the repository. SciPy computes \<open>1.0 - uv / sqrt(uu * vv)\<close> from the three dot products
  and clips the result to the interval from 0 to 2; vectors of different lengths are
  refused by \<open>np.dot\<close>. For a vector whose dot product with itself is zero the quotient
  is \<open>0 / 0\<close>, that is NaN, and NaN passes through \<open>np.clip\<close>. (Releases of SciPy that
  clip with \<open>max(0, min(dist, 2.0))\<close> turn this NaN into \<open>0\<close>.)
\<close>

definition cosine_f64 :: "f64 list \<Rightarrow> f64 list \<Rightarrow> error + f64" where
  "cosine_f64 u v =
     (if length u \<noteq> length v then Inl ShapeMismatch
      else
        (let uv = fdot u v; uu = fdot u u; vv = fdot v v;
             dist = fsub (Fin 1) (fdiv uv (fsqrt (fmul uu vv)))
         in Inr (fclip dist (Fin 0) (Fin 2))))"

text \<open>
  The numeric path of \<open>LioraSentinel.observe\<close> on doubles: the observed vector is
  normalized, the drift is its cosine distance from the normalized origin, and the
  decision is \<open>drift <= threshold\<close>. The result is the pair \<open>(is_safe, drift)\<close> of the
  returned triple, or the error raised. The window, the average and the audit event take
  no part in these two values; they are in \<open>observe\<close> above.
\<close>

definition observe_f64 :: "f64 list \<Rightarrow> f64 \<Rightarrow> f64 list \<Rightarrow> error + bool \<times> f64" where
  "observe_f64 origin_n thr current_tii =
     (case normalize_f64 current_tii of
        Inl e \<Rightarrow> Inl e
      | Inr current_n \<Rightarrow>
          (case cosine_f64 origin_n current_n of
             Inl e \<Rightarrow> Inl e
           | Inr drift \<Rightarrow> Inr (fle drift thr, drift)))"

text \<open>
  The vectors for which the bounds below are proved: at most 65536 components, one of
  them non-zero, every non-zero component of magnitude between \<open>2 ^ - 500\<close> and
  \<open>2 ^ 500\<close>, so that no square overflows or underflows.
\<close>

definition in_range :: "real \<Rightarrow> bool" where
  "in_range x \<longleftrightarrow> x = 0 \<or> (pow2 (- 500) \<le> \<bar>x\<bar> \<and> \<bar>x\<bar> \<le> pow2 500)"

definition safe_vec :: "real list \<Rightarrow> bool" where
  "safe_vec xs \<longleftrightarrow> length xs \<le> 65536 \<and> (\<exists>x\<in>set xs. x \<noteq> 0) \<and> (\<forall>x\<in>set xs. in_range x)"

text \<open>
  \<open>approx j a A\<close>: the computed \<open>a\<close> is the exact \<open>A\<close> up to \<open>j\<close> roundings, each a
  relative error of at most \<open>2 ^ - 53\<close>. \<open>fin_val\<close> reads a finite double.
\<close>

definition approx :: "nat \<Rightarrow> real \<Rightarrow> real \<Rightarrow> bool" where
  "approx j a A \<longleftrightarrow>
     (A = 0 \<and> a = 0) \<or>
     (pow2 (- 1000) \<le> A \<and> (1 - pow2 (- 53)) ^ j * A \<le> a \<and> a \<le> (1 + pow2 (- 53)) ^ j * A)"

fun fin_val :: "f64 \<Rightarrow> real" where
  "fin_val (Fin x) = x"
| "fin_val PInf = 0"
| "fin_val NInf = 0"
| "fin_val NaN = 0"

subsection \<open>The report\<close>

text \<open>
  The Python values a report is made of. A step identifier is whatever the caller
  passed: \<open>PyTuple\<close> is a tuple, and \<open>PyObject\<close> stands for any object the JSON encoder
  has no rule for (bytes, a set, an instance of a class). Dictionaries have strings as
  keys, as those of the report have. A float is carried as its value; NaN and the
  infinities are not among the values.
\<close>

datatype pyval =
    PyNone
  | PyBool bool
  | PyInt int
  | PyFloat real
  | PyStr string
  | PyList "pyval list"
  | PyTuple "pyval list"
  | PyDict "(string \<times> pyval) list"
  | PyObject

text \<open>
  A JSON document. The text that \<open>json.dump\<close> writes is represented by the document it
  denotes; indentation, which \<open>indent=4\<close> sets, does not change the document.
\<close>

datatype json =
    JNull
  | JBool bool
  | JInt int
  | JFloat real
  | JStr string
  | JArr "json list"
  | JObj "(string \<times> json) list"

text \<open>
  Modelled from the spec: the encoder of \<open>json.dump\<close> and the decoder of \<open>json.load\<close>,
  which are not in the repository. The encoder writes a list and a tuple alike as an
  array and raises \<open>TypeError\<close> at the first object it has no rule for; the decoder reads
  an array as a list and an object as a dictionary. (A finite float is written with
  \<open>repr\<close>, which reads back as the same float.)
\<close>

fun json_encode :: "pyval \<Rightarrow> error + json"
  and json_encode_list :: "pyval list \<Rightarrow> error + json list"
  and json_encode_items :: "(string \<times> pyval) list \<Rightarrow> error + (string \<times> json) list" where
  "json_encode PyNone = Inr JNull"
| "json_encode (PyBool b) = Inr (JBool b)"
| "json_encode (PyInt i) = Inr (JInt i)"
| "json_encode (PyFloat x) = Inr (JFloat x)"
| "json_encode (PyStr s) = Inr (JStr s)"
| "json_encode (PyList xs) =
     (case json_encode_list xs of Inl e \<Rightarrow> Inl e | Inr js \<Rightarrow> Inr (JArr js))"
| "json_encode (PyTuple xs) =
     (case json_encode_list xs of Inl e \<Rightarrow> Inl e | Inr js \<Rightarrow> Inr (JArr js))"
| "json_encode (PyDict kvs) =
     (case json_encode_items kvs of Inl e \<Rightarrow> Inl e | Inr js \<Rightarrow> Inr (JObj js))"
| "json_encode PyObject = Inl NotSerializable"
| "json_encode_list [] = Inr []"
| "json_encode_list (x # xs) =
     (case json_encode x of
        Inl e \<Rightarrow> Inl e
      | Inr j \<Rightarrow> (case json_encode_list xs of Inl e \<Rightarrow> Inl e | Inr js \<Rightarrow> Inr (j # js)))"
| "json_encode_items [] = Inr []"
| "json_encode_items ((k, x) # kvs) =
     (case json_encode x of
        Inl e \<Rightarrow> Inl e
      | Inr j \<Rightarrow> (case json_encode_items kvs of Inl e \<Rightarrow> Inl e | Inr js \<Rightarrow> Inr ((k, j) # js)))"

fun json_decode :: "json \<Rightarrow> pyval" where
  "json_decode JNull = PyNone"
| "json_decode (JBool b) = PyBool b"
| "json_decode (JInt i) = PyInt i"
| "json_decode (JFloat x) = PyFloat x"
| "json_decode (JStr s) = PyStr s"
| "json_decode (JArr js) = PyList (map json_decode js)"
| "json_decode (JObj kjs) = PyDict (map (\<lambda>(k, j). (k, json_decode j)) kjs)"

text \<open>
  The values that JSON has a form of their own for: none, booleans, numbers, strings,
  and lists and dictionaries of such values; no tuple and no foreign object anywhere
  inside.
\<close>

fun json_native :: "pyval \<Rightarrow> bool" where
  "json_native PyNone = True"
| "json_native (PyBool b) = True"
| "json_native (PyInt i) = True"
| "json_native (PyFloat x) = True"
| "json_native (PyStr s) = True"
| "json_native (PyList xs) = list_all json_native xs"
| "json_native (PyTuple xs) = False"
| "json_native (PyDict kvs) = list_all (\<lambda>(k, x). json_native x) kvs"
| "json_native PyObject = False"

text \<open>
  What a file holds after \<open>export_report\<close>: a whole document, or the beginning of one.
  \<open>open(filename, "w")\<close> empties the file and \<open>json.dump\<close> writes piece by piece, so
  when the encoder raises, the file is left with an incomplete text, which
  \<open>json.load\<close> refuses.
\<close>

datatype file_text = Document json | Truncated

definition json_load :: "file_text \<Rightarrow> error + pyval" where
  "json_load t = (case t of Document j \<Rightarrow> Inr (json_decode j) | Truncated \<Rightarrow> Inl DecodeError)"

text \<open>Reading a key of a dictionary, \<open>d.get(k)\<close>.\<close>

definition py_get :: "pyval \<Rightarrow> string \<Rightarrow> pyval option" where
  "py_get d k = (case d of PyDict kvs \<Rightarrow> map_of kvs k | _ \<Rightarrow> None)"

text \<open>
  The audit event and the report as the Python dictionaries \<open>observe\<close> and
  \<open>export_report\<close> build, the keys in the order of the source. An absent step identifier
  is Python's \<open>None\<close>.
\<close>

definition sid_py :: "pyval option \<Rightarrow> pyval" where
  "sid_py sid = (case sid of None \<Rightarrow> PyNone | Some x \<Rightarrow> x)"

definition event_py :: "pyval event \<Rightarrow> pyval" where
  "event_py e =
     PyDict [(''timestamp'', PyStr (timestamp e)),
             (''step_id'', sid_py (step_id e)),
             (''drift_raw'', PyFloat (drift_raw e)),
             (''drift_avg'', PyFloat (drift_avg e)),
             (''threshold'', PyFloat (event.threshold e)),
             (''status'', PyStr (status e)),
             (''origin_hash'', PyStr (event.origin_hash e)),
             (''action_required'', PyBool (action_required e))]"

definition report_py :: "pyval sentinel \<Rightarrow> string \<Rightarrow> pyval" where
  "report_py s now =
     PyDict [(''meta'',
              PyDict [(''module'', PyStr ''Liora Identity Observer''),
                      (''version'', PyStr ''1.2''),
                      (''generated_at'', PyStr now),
                      (''origin_hash'', PyStr (sentinel.origin_hash s)),
                      (''threshold'', PyFloat (sentinel.threshold s))]),
             (''audit_trail'', PyList (map event_py (history s)))]"

text \<open>
  \<open>LioraSentinel.export_report\<close>. The file system is a map from file names to what
  the files hold, and \<open>writable\<close> says which names \<open>open(filename, "w")\<close> accepts. The
  report is built first; when the file cannot be opened nothing is written; when the
  encoder raises, the error reaches the caller and the file is left truncated; otherwise
  the file holds the document of the report. The Sentinel is not changed.
\<close>

definition export_report ::
  "(string \<Rightarrow> bool) \<Rightarrow> (string \<rightharpoonup> file_text) \<Rightarrow> pyval sentinel \<Rightarrow> string \<Rightarrow> string
     \<Rightarrow> (string \<rightharpoonup> file_text) \<times> (error + unit)" where
  "export_report writable fs s filename now =
     (let report = report_py s now
      in if \<not> writable filename then (fs, Inl IOFailure)
         else
           (case json_encode report of
              Inl e \<Rightarrow> (fs(filename \<mapsto> Truncated), Inl e)
            | Inr doc \<Rightarrow> (fs(filename \<mapsto> Document doc), Inr ())))"

text \<open>
  Reading a report back: \<open>json.load\<close> on the file of that name, and the step identifiers
  of the audit trail of a report read back, in order.
\<close>

definition read_report :: "(string \<rightharpoonup> file_text) \<Rightarrow> string \<Rightarrow> error + pyval" where
  "read_report fs filename =
     (case fs filename of None \<Rightarrow> Inl IOFailure | Some t \<Rightarrow> json_load t)"

definition trail_step_ids :: "pyval \<Rightarrow> pyval option list" where
  "trail_step_ids r =
     (case py_get r ''audit_trail'' of
        Some (PyList evs) \<Rightarrow> map (\<lambda>e. py_get e ''step_id'') evs
      | _ \<Rightarrow> [])"

section \<open>Properties\<close>

subsection \<open>Norm and dot product\<close>

lemma sum_sq_eq_0_iff: "(\<Sum>x\<leftarrow>v. x * x) = (0::real) \<longleftrightarrow> (\<forall>x\<in>set v. x = 0)"
proof (induction v)
  case Nil
  show ?case by simp
next
  case (Cons a v)
  have "0 \<le> (\<Sum>x\<leftarrow>v. x * x)" by (rule sum_list_nonneg) auto
  then have "a * a + (\<Sum>x\<leftarrow>v. x * x) = 0 \<longleftrightarrow> a * a = 0 \<and> (\<Sum>x\<leftarrow>v. x * x) = 0"
    by (intro add_nonneg_eq_0_iff) simp_all
  with Cons show ?case by simp
qed

lemma sum_sq_nonneg: "0 \<le> (\<Sum>x\<leftarrow>v. x * (x::real))"
  by (rule sum_list_nonneg) auto

lemma linalg_norm_eq_0_iff: "linalg_norm v = 0 \<longleftrightarrow> (\<forall>x\<in>set v. x = 0)"
  by (simp add: linalg_norm_def sum_sq_eq_0_iff)

lemma linalg_norm_nonneg: "0 \<le> linalg_norm v"
  by (simp add: linalg_norm_def sum_sq_nonneg)

lemma dot_self: "dot v v = (\<Sum>x\<leftarrow>v. x * x)"
  by (induction v) (simp_all add: dot_def)

lemma normalize_v_zero: "\<forall>x\<in>set v. x = 0 \<Longrightarrow> normalize_v v = Inl ZeroVector"
  by (simp add: normalize_v_def linalg_norm_eq_0_iff)

subsection \<open>Normalization\<close>

text \<open>
  C3: normalizing a vector of magnitude zero (every component is zero, the empty
  vector included) raises the zero-vector error and returns no value; the constructor
  hands the error on for a zero origin, and \<open>observe\<close> hands it on for a zero observed
  vector, the Sentinel being as it was.
\<close>

theorem zero_vector_raises:
  assumes "\<forall>x\<in>set v. x = 0"
  shows "normalize_v v = Inl ZeroVector
       \<and> (LioraSentinel digest v thr w :: error + 'sid sentinel) = Inl ZeroVector
       \<and> observe s v sid now = (s, Inl ZeroVector)"
  using normalize_v_zero [OF assms]
  by (simp add: LioraSentinel_def observe_def)

theorem zero_vector_raises_witness:
  "normalize_v [0, 0] = Inl ZeroVector
   \<and> (LioraSentinel (\<lambda>_. ''h'') [0, 0] (15 / 100) 5 :: error + nat sentinel) = Inl ZeroVector
   \<and> observe \<lparr>origin_tii = [1, 0], threshold = 15 / 100, origin_hash = ''h'',
               history = [], recent_drifts = \<lparr>maxlen = 5, items = []\<rparr>\<rparr>
        [0, 0] (None :: nat option) ''t''
      = (\<lparr>origin_tii = [1, 0], threshold = 15 / 100, origin_hash = ''h'',
               history = [], recent_drifts = \<lparr>maxlen = 5, items = []\<rparr>\<rparr>, Inl ZeroVector)"
proof -
  have h: "\<forall>x\<in>set [0, 0 :: real]. x = 0" by simp
  show ?thesis using zero_vector_raises [OF h] by simp
qed

subsection \<open>The decision of observe\<close>

text \<open>
  C1: whenever \<open>observe\<close> returns, \<open>is_safe\<close> is true exactly when the drift is at most
  the threshold of the Sentinel; the event appended has the status \<open>COHERENT\<close> when
  \<open>is_safe\<close> holds and \<open>DRIFT_ALERT\<close> otherwise, and its \<open>action_required\<close> is the
  negation of \<open>is_safe\<close>. The window does not enter: with any other window in place of
  the Sentinel's, the call returns the same \<open>is_safe\<close> and the same drift.
\<close>

theorem observe_decision:
  assumes "observe s v sid now = (s', Inr (is_safe, drift, avg))"
  shows "is_safe = (drift \<le> sentinel.threshold s)
       \<and> history s' \<noteq> []
       \<and> status (last (history s')) = (if is_safe then ''COHERENT'' else ''DRIFT_ALERT'')
       \<and> action_required (last (history s')) = (\<not> is_safe)
       \<and> (\<forall>win. \<exists>s'' avg'. observe (s\<lparr>recent_drifts := win\<rparr>) v sid now
                               = (s'', Inr (is_safe, drift, avg')))"
  using assms
  by (auto simp: observe_def Let_def split: sum.splits if_splits)

theorem observe_decision_witness:
  "observe \<lparr>origin_tii = [1, 0], threshold = 1 / 100, origin_hash = ''h'',
             history = [], recent_drifts = \<lparr>maxlen = 5, items = []\<rparr>\<rparr>
      [0, 1] (Some (2 :: nat)) ''t''
   = (\<lparr>origin_tii = [1, 0], threshold = 1 / 100, origin_hash = ''h'',
        history = [\<lparr>timestamp = ''t'', step_id = Some 2, drift_raw = 1, drift_avg = 1,
                    threshold = 1 / 100, status = ''DRIFT_ALERT'', origin_hash = ''h'',
                    action_required = True\<rparr>],
        recent_drifts = \<lparr>maxlen = 5, items = [1]\<rparr>\<rparr>, Inr (False, 1, 1))
   \<and> False = ((1 :: real) \<le> 1 / 100)"
proof -
  have h: "observe \<lparr>origin_tii = [1, 0], threshold = 1 / 100, origin_hash = ''h'',
             history = [], recent_drifts = \<lparr>maxlen = 5, items = []\<rparr>\<rparr>
      [0, 1] (Some (2 :: nat)) ''t''
   = (\<lparr>origin_tii = [1, 0], threshold = 1 / 100, origin_hash = ''h'',
        history = [\<lparr>timestamp = ''t'', step_id = Some 2, drift_raw = 1, drift_avg = 1,
                    threshold = 1 / 100, status = ''DRIFT_ALERT'', origin_hash = ''h'',
                    action_required = True\<rparr>],
        recent_drifts = \<lparr>maxlen = 5, items = [1]\<rparr>\<rparr>, Inr (False, 1, 1))"
    by (simp add: observe_def normalize_v_def linalg_norm_def cosine_def dot_def
        deque_append_def mean_def py_round_def round_half_even_def Let_def)
  show ?thesis using h observe_decision [OF h] by simp
qed

subsection \<open>What a call of observe leaves behind\<close>

lemma observe_Inl:
  assumes "observe s v sid now = (s', Inl e)"
  shows "s' = s"
  using assms by (auto simp: observe_def Let_def split: sum.splits if_splits)

lemma observe_Inr:
  assumes "observe s v sid now = (s', Inr (b, d, a))"
  shows "\<exists>ev. history s' = history s @ [ev] \<and> step_id ev = sid \<and> timestamp ev = now
            \<and> status ev = (if b then ''COHERENT'' else ''DRIFT_ALERT'')"
    and "recent_drifts s' = deque_append (recent_drifts s) d"
    and "origin_tii s' = origin_tii s"
    and "sentinel.threshold s' = sentinel.threshold s"
    and "sentinel.origin_hash s' = sentinel.origin_hash s"
  using assms by (auto simp: observe_def Let_def split: sum.splits if_splits)




lemma linalg_norm_e1: "linalg_norm [1, 0] = 1" "linalg_norm [0, 1] = 1" "linalg_norm [- 1, 0] = 1"
  by (simp_all add: linalg_norm_def)

lemmas eval_defs = observe_def normalize_v_def cosine_def dot_def deque_append_def mean_def
  py_round_def round_half_even_def LioraSentinel_def stable_vector_hash_def decision_of_def Let_def


subsection \<open>Sequences of calls\<close>

lemma decision_of_observe:
  assumes "origin_tii s1 = origin_tii s2" "sentinel.threshold s1 = sentinel.threshold s2"
  shows "decision_of (snd (observe s1 v sid now)) = decision_of (snd (observe s2 v sid now))"
  using assms by (simp add: observe_def decision_of_def Let_def split: sum.splits)

lemma observe_keeps:
  "origin_tii (fst (observe s v sid now)) = origin_tii s"
  "sentinel.threshold (fst (observe s v sid now)) = sentinel.threshold s"
  "sentinel.origin_hash (fst (observe s v sid now)) = sentinel.origin_hash s"
  by (simp_all add: observe_def Let_def split: sum.splits)

lemma observe_all_Cons:
  "observe_all s ((v, sid, now) # calls)
     = (fst (observe_all (fst (observe s v sid now)) calls),
        snd (observe s v sid now) # snd (observe_all (fst (observe s v sid now)) calls))"
  by (simp split: prod.splits)

lemma observe_all_keeps:
  "origin_tii (fst (observe_all s calls)) = origin_tii s
   \<and> sentinel.threshold (fst (observe_all s calls)) = sentinel.threshold s
   \<and> sentinel.origin_hash (fst (observe_all s calls)) = sentinel.origin_hash s"
proof (induction calls arbitrary: s)
  case Nil
  show ?case by simp
next
  case (Cons c calls)
  obtain v sid now where c: "c = (v, sid, now)" by (cases c)
  obtain s1 r where o: "observe s v sid now = (s1, r)" by (cases "observe s v sid now")
  from Cons [of s1] observe_keeps [of s v sid now] o c
  show ?case by (simp add: observe_all_Cons del: observe_all.simps)
qed

lemma observe_all_decisions:
  assumes "origin_tii s1 = origin_tii s2" "sentinel.threshold s1 = sentinel.threshold s2"
  shows "map decision_of (snd (observe_all s1 calls)) = map decision_of (snd (observe_all s2 calls))"
  using assms
proof (induction calls arbitrary: s1 s2)
  case Nil
  show ?case by simp
next
  case (Cons c calls)
  obtain v sid now where c: "c = (v, sid, now)" by (cases c)
  obtain t1 r1 where o1: "observe s1 v sid now = (t1, r1)" by (cases "observe s1 v sid now")
  obtain t2 r2 where o2: "observe s2 v sid now = (t2, r2)" by (cases "observe s2 v sid now")
  have r: "decision_of r1 = decision_of r2"
    using decision_of_observe [OF Cons.prems, of v sid now] o1 o2 by simp
  have k: "origin_tii t1 = origin_tii t2" "sentinel.threshold t1 = sentinel.threshold t2"
    using observe_keeps [of s1 v sid now] observe_keeps [of s2 v sid now] o1 o2 Cons.prems
    by simp_all
  from Cons.IH [OF k] r show ?case
    by (simp add: c o1 o2 observe_all_Cons del: observe_all.simps)
qed

lemma LioraSentinel_Inr:
  assumes "LioraSentinel digest origin thr w = Inr s"
  shows "normalize_v origin = Inr (origin_tii s)"
    and "sentinel.threshold s = thr"
    and "sentinel.origin_hash s = digest (origin_tii s)"
    and "history s = []"
    and "items (recent_drifts s) = []"
    and "0 \<le> w" and "maxlen (recent_drifts s) = nat w"
  using assms
  by (auto simp: LioraSentinel_def stable_vector_hash_def split: sum.splits if_splits)

text \<open>
  C5: two Sentinels built from the same origin and threshold with different window
  sizes, given the same sequence of calls, return the same \<open>is_safe\<close> and the same
  drift at every step (and fail at the same steps); only the average may differ.
\<close>

theorem window_size_no_influence:
  assumes "LioraSentinel digest origin thr w1 = Inr s1"
    and "LioraSentinel digest origin thr w2 = Inr s2"
  shows "map decision_of (snd (observe_all s1 calls))
       = map decision_of (snd (observe_all s2 calls))"
proof -
  have "origin_tii s1 = origin_tii s2"
    using LioraSentinel_Inr(1) [OF assms(1)] LioraSentinel_Inr(1) [OF assms(2)] by simp
  moreover have "sentinel.threshold s1 = sentinel.threshold s2"
    using LioraSentinel_Inr(2) [OF assms(1)] LioraSentinel_Inr(2) [OF assms(2)] by simp
  ultimately show ?thesis by (rule observe_all_decisions)
qed

theorem window_size_no_influence_witness:
  "map decision_of (snd (observe_all
       \<lparr>origin_tii = [1, 0], threshold = 1 / 100, origin_hash = ''h'',
         history = [], recent_drifts = \<lparr>maxlen = 1, items = []\<rparr>\<rparr>
       [([1, 0], Some (1 :: nat), ''t1''), ([0, 1], Some 2, ''t2'')]))
   = map decision_of (snd (observe_all
       \<lparr>origin_tii = [1, 0], threshold = 1 / 100, origin_hash = ''h'',
         history = [], recent_drifts = \<lparr>maxlen = 2, items = []\<rparr>\<rparr>
       [([1, 0], Some (1 :: nat), ''t1''), ([0, 1], Some 2, ''t2'')]))
   \<and> snd (observe_all
       \<lparr>origin_tii = [1, 0], threshold = 1 / 100, origin_hash = ''h'',
         history = [], recent_drifts = \<lparr>maxlen = 1, items = []\<rparr>\<rparr>
       [([1, 0], Some (1 :: nat), ''t1''), ([0, 1], Some 2, ''t2'')])
     = [Inr (True, 0, 0), Inr (False, 1, 1)]
   \<and> snd (observe_all
       \<lparr>origin_tii = [1, 0], threshold = 1 / 100, origin_hash = ''h'',
         history = [], recent_drifts = \<lparr>maxlen = 2, items = []\<rparr>\<rparr>
       [([1, 0], Some (1 :: nat), ''t1''), ([0, 1], Some 2, ''t2'')])
     = [Inr (True, 0, 0), Inr (False, 1, 1 / 2)]"
proof -
  have h1: "LioraSentinel (\<lambda>_. ''h'') [1, 0] (1 / 100) 1
      = Inr \<lparr>origin_tii = [1, 0], threshold = 1 / 100, origin_hash = ''h'',
         history = ([] :: nat event list), recent_drifts = \<lparr>maxlen = 1, items = []\<rparr>\<rparr>"
    by (simp add: LioraSentinel_def normalize_v_def linalg_norm_e1 stable_vector_hash_def)
  have h2: "LioraSentinel (\<lambda>_. ''h'') [1, 0] (1 / 100) 2
      = Inr \<lparr>origin_tii = [1, 0], threshold = 1 / 100, origin_hash = ''h'',
         history = ([] :: nat event list), recent_drifts = \<lparr>maxlen = 2, items = []\<rparr>\<rparr>"
    by (simp add: LioraSentinel_def normalize_v_def linalg_norm_e1 stable_vector_hash_def)
  show ?thesis
    using window_size_no_influence [OF h1 h2,
        of "[([1, 0], Some (1 :: nat), ''t1''), ([0, 1], Some 2, ''t2'')]"]
    by (simp add: eval_defs linalg_norm_e1)
qed

lemma observe_all_history:
  "\<exists>evs. history (fst (observe_all s calls)) = history s @ evs"
proof (induction calls arbitrary: s)
  case Nil
  show ?case by simp
next
  case (Cons c calls)
  obtain v sid now where c: "c = (v, sid, now)" by (cases c)
  obtain s1 r where o: "observe s v sid now = (s1, r)" by (cases "observe s v sid now")
  have "\<exists>evs. history s1 = history s @ evs"
  proof (cases r)
    case (Inl e)
    with o observe_Inl have "s1 = s" by fastforce
    then show ?thesis by simp
  next
    case (Inr t)
    obtain b d a where "t = (b, d, a)" by (cases t)
    with o Inr observe_Inr(1) [of s v sid now s1 b d a] show ?thesis by auto
  qed
  then obtain evs1 where e1: "history s1 = history s @ evs1" ..
  from Cons [of s1] obtain evs2 where "history (fst (observe_all s1 calls)) = history s1 @ evs2" ..
  with e1 show ?case by (simp add: c o observe_all_Cons del: observe_all.simps)
qed

lemma observe_all_success:
  assumes "observe_all s calls = (s', map Inr outs)"
  shows "\<exists>evs. history s' = history s @ evs
           \<and> map (\<lambda>e. (step_id e, timestamp e)) evs = map snd calls
           \<and> map status evs = map label outs"
  using assms
proof (induction calls arbitrary: s outs)
  case Nil
  then show ?case by simp
next
  case (Cons c calls)
  obtain v sid now where c: "c = (v, sid, now)" by (cases c)
  obtain s1 r where o: "observe s v sid now = (s1, r)" by (cases "observe s v sid now")
  obtain s2 rs where a: "observe_all s1 calls = (s2, rs)" by (cases "observe_all s1 calls")
  from Cons.prems c o a have p: "s2 = s'" "r # rs = map Inr outs" by simp_all
  then obtain out outs1 where
    outs: "outs = out # outs1" and r: "r = Inr out" and rs: "rs = map Inr outs1"
    by (cases outs) auto
  from a p(1) rs have rest: "observe_all s1 calls = (s', map Inr outs1)" by simp
  obtain b d a where out: "out = (b, d, a)" by (cases out)
  from observe_Inr(1) [of s v sid now s1 b d a] o r out
  obtain ev where ev: "history s1 = history s @ [ev]" "step_id ev = sid" "timestamp ev = now"
    "status ev = label out" by (auto simp: label_def)
  from Cons.IH [OF rest] obtain evs where evs: "history s' = history s1 @ evs"
    "map (\<lambda>e. (step_id e, timestamp e)) evs = map snd calls" "map status evs = map label outs1"
    by blast
  have "history s' = history s @ (ev # evs)" using ev evs by simp
  moreover have "map (\<lambda>e. (step_id e, timestamp e)) (ev # evs) = map snd (c # calls)"
    using ev evs c by simp
  moreover have "map status (ev # evs) = map label outs" using ev evs outs by simp
  ultimately show ?case by blast
qed

text \<open>
  C8: after N calls of \<open>observe\<close> that all succeeded on a fresh Sentinel, the audit
  trail holds exactly N events, the i-th carrying the step identifier and the timestamp
  of the i-th call; whatever calls follow, the trail so far stays as a prefix of the
  later trail.
\<close>

theorem audit_trail_append_only:
  assumes "LioraSentinel digest origin thr w = Inr s0"
    and "observe_all s0 calls = (s, map Inr outs)"
  shows "length (history s) = length calls
       \<and> map (\<lambda>e. (step_id e, timestamp e)) (history s) = map snd calls
       \<and> (\<forall>more. \<exists>evs. history (fst (observe_all s more)) = history s @ evs)"
proof -
  from observe_all_success [OF assms(2)] LioraSentinel_Inr(4) [OF assms(1)]
  have m: "map (\<lambda>e. (step_id e, timestamp e)) (history s) = map snd calls" by auto
  from m have "length (map (\<lambda>e. (step_id e, timestamp e)) (history s)) = length (map snd calls)"
    by simp
  then have "length (history s) = length calls" by simp
  with m observe_all_history show ?thesis by blast
qed

theorem audit_trail_append_only_witness:
  "observe_all
       \<lparr>origin_tii = [1, 0], threshold = 1 / 100, origin_hash = ''h'',
         history = [], recent_drifts = \<lparr>maxlen = 5, items = []\<rparr>\<rparr>
       [([1, 0], Some (1 :: nat), ''t1''), ([0, 1], None, ''t2'')]
   = (\<lparr>origin_tii = [1, 0], threshold = 1 / 100, origin_hash = ''h'',
        history = [\<lparr>timestamp = ''t1'', step_id = Some 1, drift_raw = 0, drift_avg = 0,
                    threshold = 1 / 100, status = ''COHERENT'', origin_hash = ''h'',
                    action_required = False\<rparr>,
                   \<lparr>timestamp = ''t2'', step_id = None, drift_raw = 1, drift_avg = 1 / 2,
                    threshold = 1 / 100, status = ''DRIFT_ALERT'', origin_hash = ''h'',
                    action_required = True\<rparr>],
        recent_drifts = \<lparr>maxlen = 5, items = [0, 1]\<rparr>\<rparr>,
      map Inr [(True, 0, 0), (False, 1, 1 / 2)])"
proof -
  let ?ini = "\<lparr>origin_tii = [1, 0], threshold = 1 / 100, origin_hash = ''h'',
         history = ([] :: nat event list), recent_drifts = \<lparr>maxlen = 5, items = []\<rparr>\<rparr>"
  let ?calls = "[([1, 0], Some (1 :: nat), ''t1''), ([0, 1], None, ''t2'')]"
  let ?fin = "\<lparr>origin_tii = [1, 0], threshold = 1 / 100, origin_hash = ''h'',
        history = [\<lparr>timestamp = ''t1'', step_id = Some (1 :: nat), drift_raw = 0, drift_avg = 0,
                    threshold = 1 / 100, status = ''COHERENT'', origin_hash = ''h'',
                    action_required = False\<rparr>,
                   \<lparr>timestamp = ''t2'', step_id = None, drift_raw = 1, drift_avg = 1 / 2,
                    threshold = 1 / 100, status = ''DRIFT_ALERT'', origin_hash = ''h'',
                    action_required = True\<rparr>],
        recent_drifts = \<lparr>maxlen = 5, items = [0, 1]\<rparr>\<rparr>"
  have h1: "LioraSentinel (\<lambda>_. ''h'') [1, 0] (1 / 100) 5 = Inr ?ini"
    by (simp add: LioraSentinel_def normalize_v_def linalg_norm_e1 stable_vector_hash_def)
  have h2: "observe_all ?ini ?calls = (?fin, map Inr [(True, 0, 0), (False, 1, 1 / 2)])"
    by (simp add: eval_defs linalg_norm_e1)
  show ?thesis using h2 audit_trail_append_only [OF h1 h2] by simp
qed

subsection \<open>The recorded drift and the decision\<close>

lemma sqrt_841: "sqrt 841 = 29"
  using real_sqrt_abs [of 29] by simp

text \<open>
  C10: the decision tests the drift as computed, the event records the drift rounded
  to six decimals. With origin \<open>[1, 0]\<close> and threshold 0.275862 the vector \<open>[21, 20]\<close>
  has drift 8/29 = 0.27586206..., just above the threshold: the call returns unsafe,
  and the appended event has \<open>drift_raw\<close> 0.275862, which is not above the threshold the
  same event records, together with status \<open>DRIFT_ALERT\<close> and \<open>action_required\<close> true.
\<close>

theorem rounded_drift_hides_alert:
  "\<exists>(s0 :: 'sid sentinel) s'.
      LioraSentinel digest [1, 0] (275862 / 1000000) 5 = Inr s0
      \<and> observe s0 [21, 20] sid now = (s', Inr (False, 8 / 29, 8 / 29))
      \<and> sentinel.threshold s0 < 8 / 29
      \<and> drift_raw (last (history s')) = 275862 / 1000000
      \<and> event.threshold (last (history s')) = 275862 / 1000000
      \<and> drift_raw (last (history s')) \<le> event.threshold (last (history s'))
      \<and> drift_raw (last (history s')) \<noteq> 8 / 29
      \<and> status (last (history s')) = ''DRIFT_ALERT''
      \<and> action_required (last (history s'))"
  by (simp add: eval_defs linalg_norm_e1 linalg_norm_def sqrt_841)

subsection \<open>Powers of two\<close>

lemma pow2_pos [simp]: "0 < pow2 k"
  by (simp add: pow2_def)

lemma pow2_nonneg [simp]: "0 \<le> pow2 k"
  by (simp add: pow2_def)

lemma pow2_neq0 [simp]: "pow2 k \<noteq> 0"
  by (simp add: pow2_def)

lemma pow2_not_le0 [simp]: "\<not> pow2 k \<le> 0"
  by (simp add: pow2_def not_le)

lemma pow2_add: "pow2 (a + b) = pow2 a * pow2 b"
  by (simp add: pow2_def powr_add)

lemma pow2_0 [simp]: "pow2 0 = 1"
  by (simp add: pow2_def)

lemma pow2_1 [simp]: "pow2 1 = 2"
  by (simp add: pow2_def)

lemma pow2_double: "2 * pow2 k = pow2 (k + 1)"
  by (simp add: pow2_add)

lemma pow2_half: "pow2 k / 2 = pow2 (k - 1)"
  using pow2_double [of "k - 1"] by simp

lemma pow2_le_iff [simp]: "pow2 a \<le> pow2 b \<longleftrightarrow> a \<le> b"
  by (simp add: pow2_def)

lemma pow2_less_iff [simp]: "pow2 a < pow2 b \<longleftrightarrow> a < b"
  by (simp add: pow2_def)

lemma pow2_nat: "pow2 (int n) = 2 ^ n"
  by (simp add: pow2_def powr_realpow)

lemma pow2_minus: "pow2 (- k) = 1 / pow2 k"
  by (simp add: pow2_def powr_minus inverse_eq_divide)

lemma pow2_sq: "pow2 k * pow2 k = pow2 (2 * k)"
  using pow2_add [of k k] by simp

lemma sqrt_pow2: "sqrt (pow2 (2 * k)) = pow2 k"
  using real_sqrt_abs2 [of "pow2 k"] by (simp add: pow2_sq [symmetric])

subsection \<open>Rounding to the nearest double\<close>

lemma rhe_err: "\<bar>of_int (round_half_even z) - z\<bar> \<le> 1 / 2"
proof -
  have "of_int \<lfloor>z\<rfloor> \<le> z" "z < of_int \<lfloor>z\<rfloor> + 1" by linarith+
  then show ?thesis
    by (auto simp: round_half_even_def Let_def)
qed

lemma rhe_of_int: "round_half_even (of_int n) = n"
  by (simp add: round_half_even_def)

lemma ulp_bounds:
  assumes "x \<noteq> 0"
  shows "pow2 \<lfloor>log 2 \<bar>x\<bar>\<rfloor> \<le> \<bar>x\<bar>"
    and "\<bar>x\<bar> < pow2 (\<lfloor>log 2 \<bar>x\<bar>\<rfloor> + 1)"
  using floor_log_eq_powr_iff [of "\<bar>x\<bar>" 2 "\<lfloor>log 2 \<bar>x\<bar>\<rfloor>"] assms
  by (simp_all add: pow2_def)

lemma floor_log_less:
  assumes "x \<noteq> 0" "\<bar>x\<bar> < pow2 K"
  shows "\<lfloor>log 2 \<bar>x\<bar>\<rfloor> \<le> K - 1"
proof -
  have "pow2 \<lfloor>log 2 \<bar>x\<bar>\<rfloor> < pow2 K"
    using ulp_bounds(1) [OF assms(1)] assms(2) by linarith
  then show ?thesis by simp
qed

lemma floor_log_ge:
  assumes "pow2 K \<le> \<bar>x\<bar>"
  shows "K \<le> \<lfloor>log 2 \<bar>x\<bar>\<rfloor>"
proof -
  have x: "x \<noteq> 0" using assms pow2_pos [of K] by auto
  have "pow2 K < pow2 (\<lfloor>log 2 \<bar>x\<bar>\<rfloor> + 1)"
    using ulp_bounds(2) [OF x] assms by linarith
  then show ?thesis by simp
qed

lemma rnd_step:
  assumes x: "x \<noteq> 0" and e: "e = max (\<lfloor>log 2 \<bar>x\<bar>\<rfloor> - 52) (- 1074)"
    and y: "y = of_int (round_half_even (x / pow2 e)) * pow2 e"
  shows "\<bar>y - x\<bar> \<le> pow2 (e - 1)"
    and "\<bar>y\<bar> < pow2 1024 \<Longrightarrow> rnd x = Fin y"
    and "pow2 1024 \<le> \<bar>y\<bar> \<Longrightarrow> rnd x = (if 0 < x then PInf else NInf)"
proof -
  let ?q = "pow2 e"
  have q: "0 < ?q" by simp
  have "\<bar>of_int (round_half_even (x / ?q)) - x / ?q\<bar> \<le> 1 / 2" by (rule rhe_err)
  then have "\<bar>of_int (round_half_even (x / ?q)) - x / ?q\<bar> * ?q \<le> 1 / 2 * ?q"
    using q by (intro mult_right_mono) simp_all
  moreover have "\<bar>of_int (round_half_even (x / ?q)) - x / ?q\<bar> * ?q = \<bar>y - x\<bar>"
  proof -
    have "\<bar>of_int (round_half_even (x / ?q)) - x / ?q\<bar> * ?q
        = \<bar>(of_int (round_half_even (x / ?q)) - x / ?q) * ?q\<bar>"
      using q by (simp add: abs_mult)
    also have "(of_int (round_half_even (x / ?q)) - x / ?q) * ?q = y - x"
      using q by (simp add: y algebra_simps)
    finally show ?thesis .
  qed
  ultimately show "\<bar>y - x\<bar> \<le> pow2 (e - 1)" by (simp add: pow2_half [symmetric])
  show "\<bar>y\<bar> < pow2 1024 \<Longrightarrow> rnd x = Fin y"
    using x by (simp add: rnd_def Let_def e [symmetric] y [symmetric])
  show "pow2 1024 \<le> \<bar>y\<bar> \<Longrightarrow> rnd x = (if 0 < x then PInf else NInf)"
    using x by (simp add: rnd_def Let_def e [symmetric] y [symmetric])
qed

lemma rnd_zero [simp]: "rnd 0 = Fin 0"
  by (simp add: rnd_def)

lemma rnd_abs:
  assumes "\<bar>x\<bar> < pow2 K" and "- 1021 \<le> K" and "K \<le> 1023"
  shows "\<exists>y. rnd x = Fin y \<and> \<bar>y - x\<bar> \<le> pow2 (K - 54)"
proof (cases "x = 0")
  case True
  then show ?thesis by simp
next
  case False
  define e where "e = max (\<lfloor>log 2 \<bar>x\<bar>\<rfloor> - 52) (- 1074)"
  define y :: real where "y = of_int (round_half_even (x / pow2 e)) * pow2 e"
  have "\<lfloor>log 2 \<bar>x\<bar>\<rfloor> \<le> K - 1" using False assms(1) by (rule floor_log_less)
  then have e: "e - 1 \<le> K - 54" using assms(2) by (simp add: e_def)
  then have q: "pow2 (e - 1) \<le> pow2 (K - 54)" by simp
  have err: "\<bar>y - x\<bar> \<le> pow2 (K - 54)"
    using rnd_step(1) [OF False e_def y_def] q by linarith
  have "pow2 (K - 54) \<le> pow2 K" by simp
  then have "\<bar>y\<bar> < 2 * pow2 K" using err assms(1) by linarith
  also have "\<dots> = pow2 (K + 1)" by (rule pow2_double)
  also have "\<dots> \<le> pow2 1024" using assms(3) by simp
  finally have "rnd x = Fin y" by (rule rnd_step(2) [OF False e_def y_def])
  with err show ?thesis by blast
qed

lemma rnd_rel:
  assumes "pow2 (- 1022) \<le> \<bar>x\<bar>" and "\<bar>x\<bar> \<le> pow2 1023"
  shows "\<exists>y. rnd x = Fin y \<and> \<bar>y - x\<bar> \<le> pow2 (- 53) * \<bar>x\<bar>"
proof -
  have x: "x \<noteq> 0" using assms(1) pow2_pos [of "- 1022"] by auto
  define k where "k = \<lfloor>log 2 \<bar>x\<bar>\<rfloor>"
  define e where "e = max (\<lfloor>log 2 \<bar>x\<bar>\<rfloor> - 52) (- 1074)"
  define y :: real where "y = of_int (round_half_even (x / pow2 e)) * pow2 e"
  have k: "- 1022 \<le> k" unfolding k_def using assms(1) by (rule floor_log_ge)
  have "e = max (k - 52) (- 1074)" by (simp only: e_def k_def)
  with k have e: "e - 1 = - 53 + k" by simp
  have "pow2 (e - 1) = pow2 (- 53) * pow2 k" by (simp only: e pow2_add)
  also have "\<dots> \<le> pow2 (- 53) * \<bar>x\<bar>"
    using ulp_bounds(1) [OF x] by (simp add: k_def)
  finally have q: "pow2 (e - 1) \<le> pow2 (- 53) * \<bar>x\<bar>" .
  have err: "\<bar>y - x\<bar> \<le> pow2 (- 53) * \<bar>x\<bar>"
    using rnd_step(1) [OF x e_def y_def] q by linarith
  have "pow2 (- 53) \<le> pow2 (- 1)" by simp
  then have "pow2 (- 53) * \<bar>x\<bar> \<le> pow2 (- 1) * \<bar>x\<bar>"
    by (intro mult_right_mono) simp_all
  moreover have "pow2 (- 1) = 1 / 2" using pow2_minus [of 1] by simp
  ultimately have "pow2 (- 53) * \<bar>x\<bar> \<le> \<bar>x\<bar> / 2" by simp
  then have "\<bar>y\<bar> \<le> 3 / 2 * \<bar>x\<bar>" using err by linarith
  also have "\<dots> \<le> 3 / 2 * pow2 1023" using assms(2) by simp
  also have "\<dots> < 2 * pow2 1023" by simp
  also have "2 * pow2 1023 = pow2 1024" using pow2_double [of 1023] by simp
  finally have "rnd x = Fin y" by (rule rnd_step(2) [OF x e_def y_def])
  with err show ?thesis by blast
qed

subsection \<open>Exact cases, overflow and underflow\<close>

lemma rhe_small: "\<bar>z\<bar> < 1 / 2 \<Longrightarrow> round_half_even z = 0"
proof -
  assume a: "\<bar>z\<bar> < 1 / 2"
  show ?thesis
  proof (cases "0 \<le> z")
    case True
    then have "\<lfloor>z\<rfloor> = 0" using a by (simp add: floor_eq_iff)
    then show ?thesis using a True by (simp add: round_half_even_def)
  next
    case False
    then have "\<lfloor>z\<rfloor> = - 1" using a by (simp add: floor_eq_iff)
    then show ?thesis using a False by (simp add: round_half_even_def)
  qed
qed

lemma log2_pow2 [simp]: "\<lfloor>log 2 (pow2 k)\<rfloor> = k"
  by (simp add: pow2_def)

lemma pow2_of_int:
  assumes "0 \<le> k"
  shows "pow2 k = of_int (2 ^ nat k)"
  using pow2_nat [of "nat k"] assms by simp

lemma rnd_exact:
  assumes x: "x = of_int m * pow2 e0" and m: "\<bar>m\<bar> < 2 ^ 53" and e0: "- 1074 \<le> e0"
    and fin: "\<bar>x\<bar> < pow2 1024"
  shows "rnd x = Fin x"
proof (cases "x = 0")
  case True
  then show ?thesis by simp
next
  case False
  define e where "e = max (\<lfloor>log 2 \<bar>x\<bar>\<rfloor> - 52) (- 1074)"
  define y :: real where "y = of_int (round_half_even (x / pow2 e)) * pow2 e"
  have "\<bar>x\<bar> = of_int \<bar>m\<bar> * pow2 e0" by (simp add: x abs_mult)
  also have "\<dots> < of_int (2 ^ 53) * pow2 e0"
    using m by (intro mult_strict_right_mono) (simp_all only: of_int_less_iff pow2_pos)
  also have "\<dots> = pow2 (53 + e0)" using pow2_of_int [of 53] by (simp add: pow2_add)
  finally have "\<lfloor>log 2 \<bar>x\<bar>\<rfloor> \<le> 53 + e0 - 1" using False by (intro floor_log_less)
  then have le: "e \<le> e0" using e0 by (simp add: e_def)
  have "x / pow2 e = of_int m * pow2 (e0 - e)"
    using pow2_add [of "e0 - e" e] by (simp add: x)
  also have "\<dots> = of_int (m * 2 ^ nat (e0 - e))"
    using pow2_of_int [of "e0 - e"] le by simp
  finally have "round_half_even (x / pow2 e) = m * 2 ^ nat (e0 - e)"
    by (simp only: rhe_of_int)
  then have "y = of_int m * pow2 (e0 - e) * pow2 e"
    using pow2_of_int [of "e0 - e"] le by (simp add: y_def)
  also have "\<dots> = x" using pow2_add [of "e0 - e" e] by (simp add: x)
  finally have yx: "y = x" .
  then have "\<bar>y\<bar> < pow2 1024" using fin by simp
  then have "rnd x = Fin y" by (rule rnd_step(2) [OF False e_def y_def])
  with yx show ?thesis by simp
qed

lemma rnd_pow2:
  assumes "- 1074 \<le> k" "k \<le> 1023"
  shows "rnd (pow2 k) = Fin (pow2 k)" and "rnd (- pow2 k) = Fin (- pow2 k)"
  using rnd_exact [of "pow2 k" 1 k] rnd_exact [of "- pow2 k" "- 1" k] assms by simp_all

lemma rnd_one [simp]: "rnd 1 = Fin 1"
  using rnd_pow2 [of 0] by simp

lemma rnd_minus_one [simp]: "rnd (- 1) = Fin (- 1)"
  using rnd_pow2 [of 0] by simp

lemma rnd_two [simp]: "rnd 2 = Fin 2"
  using rnd_pow2 [of 1] by simp

lemma rnd_pow2_overflow:
  assumes "1024 \<le> k"
  shows "rnd (pow2 k) = PInf"
proof -
  define e where "e = max (\<lfloor>log 2 \<bar>pow2 k\<bar>\<rfloor> - 52) (- 1074)"
  define y :: real where "y = of_int (round_half_even (pow2 k / pow2 e)) * pow2 e"
  have e: "e = k - 52" using assms by (simp add: e_def)
  have "pow2 k / pow2 e = pow2 52" using pow2_add [of 52 e] by (simp add: e)
  also have "\<dots> = of_int (2 ^ 52)" using pow2_of_int [of 52] by simp
  finally have "round_half_even (pow2 k / pow2 e) = 2 ^ 52" by (simp only: rhe_of_int)
  then have "y = pow2 52 * pow2 e" using pow2_of_int [of 52] by (simp add: y_def)
  also have "\<dots> = pow2 k" using pow2_add [of 52 e] by (simp add: e)
  finally have "pow2 1024 \<le> \<bar>y\<bar>" using assms by simp
  then have "rnd (pow2 k) = (if 0 < pow2 k then PInf else NInf)"
    by (rule rnd_step(3) [OF pow2_neq0 e_def y_def])
  then show ?thesis by simp
qed

lemma rnd_underflow:
  assumes "\<bar>x\<bar> < pow2 (- 1075)"
  shows "rnd x = Fin 0"
proof (cases "x = 0")
  case True
  then show ?thesis by simp
next
  case False
  define e where "e = max (\<lfloor>log 2 \<bar>x\<bar>\<rfloor> - 52) (- 1074)"
  define y :: real where "y = of_int (round_half_even (x / pow2 e)) * pow2 e"
  define k where "k = \<lfloor>log 2 \<bar>x\<bar>\<rfloor>"
  have k: "k \<le> - 1075 - 1" unfolding k_def using False assms by (rule floor_log_less)
  have "e = max (k - 52) (- 1074)" by (simp only: e_def k_def)
  with k have e: "e = - 1074" by simp
  have "\<bar>x / pow2 e\<bar> = \<bar>x\<bar> / pow2 e" by simp
  also have "\<dots> < pow2 (- 1075) / pow2 e" using assms by (simp add: divide_strict_right_mono)
  also have "\<dots> = 1 / 2" using pow2_add [of "- 1" "- 1074"] pow2_minus [of 1] by (simp add: e)
  finally have "round_half_even (x / pow2 e) = 0" by (rule rhe_small)
  then have "y = 0" by (simp add: y_def)
  then have "\<bar>y\<bar> < pow2 1024" by simp
  then have "rnd x = Fin y" by (rule rnd_step(2) [OF False e_def y_def])
  with \<open>y = 0\<close> show ?thesis by simp
qed

subsection \<open>Accumulated rounding factors\<close>

lemma pow2_ge_trans: "pow2 b \<le> x \<Longrightarrow> a \<le> b \<Longrightarrow> pow2 a \<le> x"
  using pow2_le_iff [of a b] by linarith

lemma pow2_le_trans: "x \<le> pow2 a \<Longrightarrow> a \<le> b \<Longrightarrow> x \<le> pow2 b"
  using pow2_le_iff [of a b] by linarith

lemma pow2_m1: "pow2 (- 1) = 1 / 2"
  using pow2_minus [of 1] by simp

lemma pow2_small: "k \<le> - 1 \<Longrightarrow> pow2 k \<le> 1 / 2"
  using pow2_le_iff [of k "- 1"] by (simp only: pow2_m1)

lemma pow2_le_one: "k \<le> 0 \<Longrightarrow> pow2 k \<le> 1"
  using pow2_le_iff [of k 0] by simp

lemma pow_u_bounds:
  fixes m :: nat
  assumes "m \<le> 131072"
  shows "1 - pow2 (- 36) \<le> (1 - pow2 (- 53)) ^ m"
    and "(1 + pow2 (- 53)) ^ m \<le> 1 + pow2 (- 35)"
    and "0 < (1 - pow2 (- 53)) ^ m"
proof -
  let ?u = "pow2 (- 53)" and ?d = "pow2 (- 36)"
  have u1: "?u \<le> 1 / 2" by (rule pow2_small) simp
  have d1: "?d \<le> 1 / 2" by (rule pow2_small) simp
  have "real m * ?u \<le> 131072 * ?u" using assms by (intro mult_right_mono) simp_all
  also have "131072 * ?u = pow2 17 * ?u" using pow2_nat [of 17] by simp
  also have "\<dots> = ?d" using pow2_add [of 17 "- 53"] by simp
  finally have mu: "real m * ?u \<le> ?d" .
  have "1 + real m * (- ?u) \<le> (1 + (- ?u)) ^ m"
    using u1 by (intro Bernoulli_inequality) simp
  then have b: "1 - real m * ?u \<le> (1 - ?u) ^ m" by simp
  then show lo: "1 - ?d \<le> (1 - ?u) ^ m" using mu by linarith
  then show pos: "0 < (1 - ?u) ^ m" using d1 by linarith
  have "(1 + ?u) ^ m * (1 - ?u) ^ m = ((1 + ?u) * (1 - ?u)) ^ m" by (simp add: power_mult_distrib)
  also have "(1 + ?u) * (1 - ?u) = 1 - ?u * ?u" by (simp add: algebra_simps)
  also have "(1 - ?u * ?u) ^ m \<le> 1" using u1 by (intro power_le_one) (simp_all add: mult_le_one)
  finally have "(1 + ?u) ^ m * (1 - ?u) ^ m \<le> 1" .
  then have "(1 + ?u) ^ m \<le> 1 / (1 - ?u) ^ m" using pos by (simp add: pos_le_divide_eq)
  also have "\<dots> \<le> 1 / (1 - ?d)" using lo d1 by (intro divide_left_mono) simp_all
  also have "\<dots> \<le> 1 + 2 * ?d"
  proof -
    have "0 \<le> ?d * (1 - 2 * ?d)" using d1 by (intro mult_nonneg_nonneg) simp_all
    then have "1 \<le> (1 + 2 * ?d) * (1 - ?d)" by (simp add: algebra_simps)
    then show ?thesis using d1 by (simp add: pos_divide_le_eq)
  qed
  also have "2 * ?d = pow2 (- 35)" using pow2_double [of "- 36"] by simp
  finally show "(1 + ?u) ^ m \<le> 1 + pow2 (- 35)" .
qed

subsection \<open>Sums of squares\<close>

lemma u_facts: "0 < pow2 (- 53)" "pow2 (- 53) \<le> 1 / 2" "0 \<le> 1 - pow2 (- 53)"
  "1 - pow2 (- 53) \<le> 1" "1 \<le> 1 + pow2 (- 53)"
  using pow2_small [of "- 53"] by simp_all

lemma approx_nonneg:
  assumes "approx j a A"
  shows "0 \<le> A"
proof -
  have p: "0 < pow2 (- 1000)" by simp
  from assms consider "A = 0" | "pow2 (- 1000) \<le> A" unfolding approx_def by blast
  then show ?thesis using p by cases linarith+
qed

lemma approx_mono:
  assumes "approx i a A" "i \<le> j"
  shows "approx j a A"
proof -
  have "(1 - pow2 (- 53)) ^ j \<le> (1 - pow2 (- 53)) ^ i"
    using u_facts assms(2) by (intro power_decreasing) simp_all
  moreover have "(1 + pow2 (- 53)) ^ i \<le> (1 + pow2 (- 53)) ^ j"
    using u_facts assms(2) by (intro power_increasing) simp_all
  moreover have "0 \<le> A" using assms(1) by (rule approx_nonneg)
  ultimately have "(1 - pow2 (- 53)) ^ j * A \<le> (1 - pow2 (- 53)) ^ i * A"
    "(1 + pow2 (- 53)) ^ i * A \<le> (1 + pow2 (- 53)) ^ j * A"
    by (simp_all add: mult_right_mono)
  then show ?thesis using assms(1) unfolding approx_def by auto
qed

lemma rnd_rel_approx:
  assumes "pow2 (- 1000) \<le> t" "t \<le> pow2 1023"
  shows "\<exists>y. rnd t = Fin y \<and> (1 - pow2 (- 53)) * t \<le> y \<and> y \<le> (1 + pow2 (- 53)) * t"
proof -
  have t: "0 < t" using assms(1) pow2_pos [of "- 1000"] by linarith
  have "pow2 (- 1022) \<le> t" using order_trans [OF _ assms(1), of "pow2 (- 1022)"] by simp
  then have "pow2 (- 1022) \<le> \<bar>t\<bar>" "\<bar>t\<bar> \<le> pow2 1023" using assms t by simp_all
  then obtain y where y: "rnd t = Fin y" "\<bar>y - t\<bar> \<le> pow2 (- 53) * \<bar>t\<bar>"
    using rnd_rel by blast
  then have "(1 - pow2 (- 53)) * t \<le> y \<and> y \<le> (1 + pow2 (- 53)) * t"
    using t by (simp add: algebra_simps abs_le_iff)
  with y(1) show ?thesis by blast
qed

lemma sq_approx:
  assumes "in_range x"
  shows "\<exists>p. rnd (x * x) = Fin p \<and> approx 1 p (x * x)"
proof (cases "x = 0")
  case True
  then show ?thesis by (simp add: approx_def)
next
  case False
  with assms have b: "pow2 (- 500) \<le> \<bar>x\<bar>" "\<bar>x\<bar> \<le> pow2 500"
    by (simp_all add: in_range_def)
  have "pow2 (- 500) * pow2 (- 500) \<le> \<bar>x\<bar> * \<bar>x\<bar>" using b(1) by (intro mult_mono) simp_all
  then have lo: "pow2 (- 1000) \<le> x * x" using pow2_add [of "- 500" "- 500"] by simp
  have "\<bar>x\<bar> * \<bar>x\<bar> \<le> pow2 500 * pow2 500" using b(2) by (intro mult_mono) simp_all
  then have hi: "x * x \<le> pow2 1000" using pow2_add [of 500 500] by simp
  have "pow2 1000 \<le> pow2 1023" by simp
  with hi have "x * x \<le> pow2 1023" by linarith
  from rnd_rel_approx [OF lo this] lo show ?thesis by (auto simp: approx_def)
qed

lemma add_approx:
  assumes a: "approx j a A" and p: "approx j p q" and j: "j \<le> 131071"
    and hi: "A + q \<le> pow2 1020"
  shows "\<exists>s. rnd (a + p) = Fin s \<and> approx (Suc j) s (A + q)"
proof (cases "A + q = 0")
  case True
  with approx_nonneg [OF a] approx_nonneg [OF p] have "A = 0" "q = 0" by linarith+
  with a p have "a = 0" "p = 0" using pow2_pos [of "- 1000"] by (auto simp: approx_def)
  then show ?thesis using True by (simp add: approx_def)
next
  case False
  let ?l = "(1 - pow2 (- 53)) ^ j" and ?h = "(1 + pow2 (- 53)) ^ j"
  have A0: "0 \<le> A" and q0: "0 \<le> q" using approx_nonneg a p by blast+
  have l: "1 / 2 \<le> ?l" "?l \<le> 1"
    using pow_u_bounds(1) [of j] j pow2_small [of "- 36"] u_facts
    by (simp_all add: power_le_one)
  have h: "1 \<le> ?h" "?h \<le> 2"
    using pow_u_bounds(2) [of j] j pow2_small [of "- 35"] u_facts
    by (simp_all add: one_le_power)
  have ba: "?l * A \<le> a \<and> a \<le> ?h * A" using a by (auto simp: approx_def)
  have bp: "?l * q \<le> p \<and> p \<le> ?h * q" using p by (auto simp: approx_def)
  have bt: "?l * (A + q) \<le> a + p" "a + p \<le> ?h * (A + q)"
    using ba bp by (simp_all add: algebra_simps)
  have lo: "pow2 (- 1000) \<le> A + q"
    using a p False A0 q0 by (auto simp: approx_def)
  have "pow2 (- 1001) = pow2 (- 1000) / 2" using pow2_half [of "- 1000"] by simp
  also have "\<dots> \<le> (A + q) / 2" using lo by simp
  also have "\<dots> \<le> ?l * (A + q)"
    using mult_right_mono [OF l(1), of "A + q"] A0 q0 by simp
  finally have t_lo: "pow2 (- 1001) \<le> a + p" using bt(1) by linarith
  have "a + p \<le> 2 * (A + q)" using bt(2) h(2) A0 q0 mult_right_mono [of ?h 2 "A + q"] by linarith
  also have "\<dots> \<le> 2 * pow2 1020" using hi by simp
  also have "\<dots> = pow2 1021" using pow2_double [of 1020] by simp
  finally have t_hi: "a + p \<le> pow2 1021" .
  have t0: "0 \<le> a + p" using t_lo pow2_pos [of "- 1001"] by linarith
  have "pow2 (- 1022) \<le> \<bar>a + p\<bar>" "\<bar>a + p\<bar> \<le> pow2 1023"
    using pow2_ge_trans [OF t_lo, of "- 1022"] pow2_le_trans [OF t_hi, of 1023] t0 by simp_all
  then obtain s where s: "rnd (a + p) = Fin s" "\<bar>s - (a + p)\<bar> \<le> pow2 (- 53) * \<bar>a + p\<bar>"
    using rnd_rel by blast
  then have bs: "(1 - pow2 (- 53)) * (a + p) \<le> s" "s \<le> (1 + pow2 (- 53)) * (a + p)"
    using t0 by (simp_all add: algebra_simps abs_le_iff)
  have "(1 - pow2 (- 53)) * (?l * (A + q)) \<le> (1 - pow2 (- 53)) * (a + p)"
    using bt(1) u_facts by (intro mult_left_mono) simp_all
  then have s_lo: "(1 - pow2 (- 53)) ^ Suc j * (A + q) \<le> s" using bs(1) by (simp add: mult.assoc)
  have "(1 + pow2 (- 53)) * (a + p) \<le> (1 + pow2 (- 53)) * (?h * (A + q))"
    using bt(2) u_facts by (intro mult_left_mono) simp_all
  then have s_hi: "s \<le> (1 + pow2 (- 53)) ^ Suc j * (A + q)" using bs(2) by (simp add: mult.assoc)
  from s(1) lo s_lo s_hi show ?thesis unfolding approx_def by blast
qed

lemma fdot_fin:
  "fdot (map Fin as) (map Fin bs)
     = foldl (\<lambda>acc (a, b). fadd acc (rnd (a * b))) (Fin 0) (zip as bs)"
proof -
  have "map2 fmul (map Fin as) (map Fin bs) = map (\<lambda>(a, b). rnd (a * b)) (zip as bs)"
    by (simp add: zip_map_map split_def)
  then show ?thesis by (simp add: fdot_def foldl_map split_def)
qed

lemma fdot_self_fin:
  "fdot (map Fin xs) (map Fin xs) = foldl (\<lambda>acc x. fadd acc (rnd (x * x))) (Fin 0) xs"
proof -
  have "zip xs xs = map (\<lambda>x. (x, x)) xs" by (induction xs) simp_all
  then show ?thesis by (simp add: fdot_fin foldl_map)
qed

lemma sumsq_fold:
  assumes "\<forall>x\<in>set xs. in_range x" and "approx j a A" and "1 \<le> j"
    and "j + length xs \<le> 131072" and "A + (\<Sum>x\<leftarrow>xs. x * x) \<le> pow2 1020"
  shows "\<exists>s. foldl (\<lambda>acc x. fadd acc (rnd (x * x))) (Fin a) xs = Fin s
           \<and> approx (j + length xs) s (A + (\<Sum>x\<leftarrow>xs. x * x))"
  using assms
proof (induction xs arbitrary: a A j)
  case Nil
  then show ?case by simp
next
  case (Cons x xs)
  from Cons.prems(1) have rx: "in_range x" by simp
  from sq_approx [OF rx] obtain p where p: "rnd (x * x) = Fin p" "approx 1 p (x * x)" by blast
  have pj: "approx j p (x * x)" using p(2) Cons.prems(3) by (rule approx_mono)
  have j: "j \<le> 131071" using Cons.prems(4) by simp
  have hi: "A + x * x \<le> pow2 1020"
    using Cons.prems(5) sum_sq_nonneg [of xs] by simp
  from add_approx [OF Cons.prems(2) pj j hi]
  obtain s1 where s1: "rnd (a + p) = Fin s1" "approx (Suc j) s1 (A + x * x)" by blast
  have "\<exists>s. foldl (\<lambda>acc x. fadd acc (rnd (x * x))) (Fin s1) xs = Fin s
           \<and> approx (Suc j + length xs) s (A + x * x + (\<Sum>x\<leftarrow>xs. x * x))"
    using Cons.prems by (intro Cons.IH [OF _ s1(2)]) (simp_all add: add.assoc)
  then show ?case by (simp add: p(1) s1(1) add.assoc)
qed

lemma sum_list_le_const:
  assumes "\<forall>x\<in>set xs. f x \<le> (c::real)"
  shows "(\<Sum>x\<leftarrow>xs. f x) \<le> real (length xs) * c"
  using assms by (induction xs) (simp_all add: algebra_simps)

lemma in_range_sq:
  assumes "in_range x"
  shows "x * x \<le> pow2 1000" and "x \<noteq> 0 \<Longrightarrow> pow2 (- 1000) \<le> x * x"
proof -
  show "x * x \<le> pow2 1000"
  proof (cases "x = 0")
    case True
    then show ?thesis by simp
  next
    case False
    with assms have "\<bar>x\<bar> \<le> pow2 500" by (simp add: in_range_def)
    then have "\<bar>x\<bar> * \<bar>x\<bar> \<le> pow2 500 * pow2 500" by (intro mult_mono) simp_all
    then show ?thesis using pow2_add [of 500 500] by simp
  qed
  assume "x \<noteq> 0"
  with assms have "pow2 (- 500) \<le> \<bar>x\<bar>" by (simp add: in_range_def)
  then have "pow2 (- 500) * pow2 (- 500) \<le> \<bar>x\<bar> * \<bar>x\<bar>" by (intro mult_mono) simp_all
  then show "pow2 (- 1000) \<le> x * x" using pow2_add [of "- 500" "- 500"] by simp
qed

lemma safe_sumsq:
  assumes "safe_vec xs"
  shows "pow2 (- 1000) \<le> (\<Sum>x\<leftarrow>xs. x * x)" and "(\<Sum>x\<leftarrow>xs. x * x) \<le> pow2 1016"
proof -
  from assms obtain x where x: "x \<in> set xs" "x \<noteq> 0" "in_range x"
    by (auto simp: safe_vec_def)
  have "x * x \<le> (\<Sum>x\<leftarrow>xs. x * x)"
    using x(1) by (intro member_le_sum_list) auto
  then show "pow2 (- 1000) \<le> (\<Sum>x\<leftarrow>xs. x * x)" using in_range_sq(2) [OF x(3) x(2)] by linarith
  have "\<forall>x\<in>set xs. x * x \<le> pow2 1000" using assms in_range_sq(1) by (auto simp: safe_vec_def)
  then have "(\<Sum>x\<leftarrow>xs. x * x) \<le> real (length xs) * pow2 1000" by (rule sum_list_le_const)
  also have "\<dots> \<le> 65536 * pow2 1000"
    using assms by (intro mult_right_mono) (simp_all add: safe_vec_def)
  also have "\<dots> = pow2 16 * pow2 1000" using pow2_nat [of 16] by simp
  also have "\<dots> = pow2 1016" using pow2_add [of 16 1000] by simp
  finally show "(\<Sum>x\<leftarrow>xs. x * x) \<le> pow2 1016" .
qed

lemma fdot_self_safe:
  assumes "safe_vec xs"
  shows "\<exists>s. fdot (map Fin xs) (map Fin xs) = Fin s
           \<and> approx (Suc (length xs)) s (\<Sum>x\<leftarrow>xs. x * x)"
proof -
  have "\<exists>s. foldl (\<lambda>acc x. fadd acc (rnd (x * x))) (Fin 0) xs = Fin s
           \<and> approx (1 + length xs) s (0 + (\<Sum>x\<leftarrow>xs. x * x))"
  proof (rule sumsq_fold)
    show "\<forall>x\<in>set xs. in_range x" using assms by (simp add: safe_vec_def)
    show "approx 1 0 0" by (simp add: approx_def)
    show "1 + length xs \<le> 131072" using assms by (simp add: safe_vec_def)
    show "0 + (\<Sum>x\<leftarrow>xs. x * x) \<le> pow2 1020"
      using pow2_le_trans [OF safe_sumsq(2) [OF assms], of 1020] by simp
  qed simp
  then show ?thesis by (simp add: fdot_self_fin)
qed

subsection \<open>The computed norm and the quotients\<close>

lemma fnorm_safe:
  assumes "safe_vec xs"
  shows "\<exists>S n. fdot (map Fin xs) (map Fin xs) = Fin S
           \<and> approx (Suc (length xs)) S (\<Sum>x\<leftarrow>xs. x * x)
           \<and> fnorm (map Fin xs) = Fin n
           \<and> (1 - pow2 (- 53)) * sqrt S \<le> n \<and> n \<le> (1 + pow2 (- 53)) * sqrt S
           \<and> pow2 (- 502) \<le> n \<and> n \<le> pow2 510 \<and> 0 < S"
proof -
  let ?A = "\<Sum>x\<leftarrow>xs. x * x"
  let ?l = "(1 - pow2 (- 53)) ^ Suc (length xs)" and ?h = "(1 + pow2 (- 53)) ^ Suc (length xs)"
  from fdot_self_safe [OF assms] obtain S where
    S: "fdot (map Fin xs) (map Fin xs) = Fin S" "approx (Suc (length xs)) S ?A" by blast
  have A: "pow2 (- 1000) \<le> ?A" "?A \<le> pow2 1016" using safe_sumsq [OF assms] by simp_all
  have A0: "0 < ?A" using A(1) pow2_pos [of "- 1000"] by linarith
  have n: "Suc (length xs) \<le> 131072" using assms by (simp add: safe_vec_def)
  have l: "1 / 2 \<le> ?l" using pow_u_bounds(1) [OF n] pow2_small [of "- 36"] by simp
  have h: "?h \<le> 2" using pow_u_bounds(2) [OF n] pow2_small [of "- 35"] by simp
  have bS: "?l * ?A \<le> S" "S \<le> ?h * ?A" using S(2) A0 by (auto simp: approx_def)
  have "pow2 (- 1001) = pow2 (- 1000) / 2" using pow2_half [of "- 1000"] by simp
  also have "\<dots> \<le> ?A / 2" using A(1) by simp
  also have "\<dots> \<le> ?l * ?A" using mult_right_mono [OF l, of ?A] A0 by simp
  finally have S_lo: "pow2 (- 1001) \<le> S" using bS(1) by linarith
  have "S \<le> 2 * ?A" using bS(2) mult_right_mono [OF h, of ?A] A0 by linarith
  also have "\<dots> \<le> 2 * pow2 1016" using A(2) by simp
  also have "\<dots> = pow2 1017" using pow2_double [of 1016] by simp
  finally have S_hi: "S \<le> pow2 1017" .
  have S0: "0 < S" using S_lo pow2_pos [of "- 1001"] by linarith
  have "pow2 (2 * (- 501)) \<le> S" using pow2_ge_trans [OF S_lo, of "- 1002"] by simp
  then have r_lo: "pow2 (- 501) \<le> sqrt S"
    using real_sqrt_le_mono [of "pow2 (2 * (- 501))" S] by (simp only: sqrt_pow2)
  have "S \<le> pow2 (2 * 509)" using pow2_le_trans [OF S_hi, of 1018] by simp
  then have r_hi: "sqrt S \<le> pow2 509"
    using real_sqrt_le_mono [of S "pow2 (2 * 509)"] by (simp only: sqrt_pow2)
  have "pow2 (- 1022) \<le> \<bar>sqrt S\<bar>" "\<bar>sqrt S\<bar> \<le> pow2 1023"
    using pow2_ge_trans [OF r_lo, of "- 1022"] pow2_le_trans [OF r_hi, of 1023] S0 by simp_all
  then obtain nn where nn: "rnd (sqrt S) = Fin nn" "\<bar>nn - sqrt S\<bar> \<le> pow2 (- 53) * \<bar>sqrt S\<bar>"
    using rnd_rel by blast
  have r0: "0 < sqrt S" using S0 by simp
  have bn: "(1 - pow2 (- 53)) * sqrt S \<le> nn" "nn \<le> (1 + pow2 (- 53)) * sqrt S"
    using nn(2) r0 by (simp_all add: algebra_simps abs_le_iff)
  have "pow2 (- 502) = pow2 (- 501) / 2" using pow2_half [of "- 501"] by simp
  also have "\<dots> \<le> sqrt S / 2" using r_lo by simp
  also have "\<dots> \<le> (1 - pow2 (- 53)) * sqrt S"
    using mult_right_mono [of "1 / 2" "1 - pow2 (- 53)" "sqrt S"] u_facts r0 by simp
  finally have n_lo: "pow2 (- 502) \<le> nn" using bn(1) by linarith
  have "nn \<le> 2 * sqrt S"
    using bn(2) mult_right_mono [of "1 + pow2 (- 53)" 2 "sqrt S"] u_facts r0 by linarith
  also have "\<dots> \<le> 2 * pow2 509" using r_hi by simp
  also have "\<dots> = pow2 510" using pow2_double [of 509] by simp
  finally have n_hi: "nn \<le> pow2 510" .
  have "fnorm (map Fin xs) = Fin nn" using S(1) S0 nn(1) by (simp add: fnorm_def)
  with S bn n_lo n_hi S0 show ?thesis by blast
qed

lemma fdiv_safe:
  assumes x: "in_range x" and n: "pow2 (- 502) \<le> n" "n \<le> pow2 510"
  shows "\<exists>y. fdiv (Fin x) (Fin n) = Fin y \<and> \<bar>y - x / n\<bar> \<le> pow2 (- 53) * \<bar>x / n\<bar>"
proof (cases "x = 0")
  case True
  have "n \<noteq> 0" using n(1) pow2_pos [of "- 502"] by linarith
  then show ?thesis using True by simp
next
  case False
  have n0: "0 < n" using n(1) pow2_pos [of "- 502"] by linarith
  from x False have b: "pow2 (- 500) \<le> \<bar>x\<bar>" "\<bar>x\<bar> \<le> pow2 500" by (simp_all add: in_range_def)
  have "pow2 (- 1010) * n \<le> pow2 (- 1010) * pow2 510" using n(2) by (intro mult_left_mono) simp_all
  also have "\<dots> = pow2 (- 500)" using pow2_add [of "- 1010" 510] by simp
  finally have "pow2 (- 1010) * n \<le> \<bar>x\<bar>" using b(1) by linarith
  then have q_lo: "pow2 (- 1010) \<le> \<bar>x\<bar> / n" using n0 by (simp add: pos_le_divide_eq)
  have "\<bar>x\<bar> \<le> pow2 1002 * pow2 (- 502)" using b(2) pow2_add [of 1002 "- 502"] by simp
  also have "\<dots> \<le> pow2 1002 * n" using n(1) by (intro mult_left_mono) simp_all
  finally have q_hi: "\<bar>x\<bar> / n \<le> pow2 1002" using n0 by (simp add: pos_divide_le_eq)
  have eq: "\<bar>x / n\<bar> = \<bar>x\<bar> / n" using n0 by simp
  have "pow2 (- 1022) \<le> \<bar>x / n\<bar>" "\<bar>x / n\<bar> \<le> pow2 1023"
    unfolding eq using pow2_ge_trans [OF q_lo, of "- 1022"] pow2_le_trans [OF q_hi, of 1023]
    by simp_all
  then obtain y where "rnd (x / n) = Fin y" "\<bar>y - x / n\<bar> \<le> pow2 (- 53) * \<bar>x / n\<bar>"
    using rnd_rel by blast
  then show ?thesis using n0 by auto
qed

lemma sq_rel:
  fixes y t u :: real
  assumes "\<bar>y - t\<bar> \<le> u * \<bar>t\<bar>" and "0 \<le> u" and "u \<le> 1"
  shows "(1 - u) * (1 - u) * (t * t) \<le> y * y" and "y * y \<le> (1 + u) * (1 + u) * (t * t)"
proof -
  have tri: "\<bar>y\<bar> \<le> \<bar>t\<bar> + \<bar>y - t\<bar>" "\<bar>t\<bar> \<le> \<bar>y\<bar> + \<bar>y - t\<bar>" by linarith+
  have e: "(1 - u) * \<bar>t\<bar> = \<bar>t\<bar> - u * \<bar>t\<bar>" "(1 + u) * \<bar>t\<bar> = \<bar>t\<bar> + u * \<bar>t\<bar>"
    by (simp_all add: algebra_simps)
  have lo: "(1 - u) * \<bar>t\<bar> \<le> \<bar>y\<bar>" unfolding e using assms(1) tri by linarith
  have hi: "\<bar>y\<bar> \<le> (1 + u) * \<bar>t\<bar>" unfolding e using assms(1) tri by linarith
  have "((1 - u) * \<bar>t\<bar>) * ((1 - u) * \<bar>t\<bar>) \<le> \<bar>y\<bar> * \<bar>y\<bar>"
    using lo assms by (intro mult_mono) simp_all
  then show "(1 - u) * (1 - u) * (t * t) \<le> y * y" by (simp add: algebra_simps)
  have "\<bar>y\<bar> * \<bar>y\<bar> \<le> ((1 + u) * \<bar>t\<bar>) * ((1 + u) * \<bar>t\<bar>)"
    using hi assms by (intro mult_mono) simp_all
  then show "y * y \<le> (1 + u) * (1 + u) * (t * t)" by (simp add: algebra_simps)
qed

lemma sum_list_scaled_bounds:
  assumes "\<forall>x\<in>set xs. l * g x \<le> f x \<and> f x \<le> h * g x"
  shows "l * (\<Sum>x\<leftarrow>xs. g x) \<le> (\<Sum>x\<leftarrow>xs. f x)" and "(\<Sum>x\<leftarrow>xs. f x) \<le> h * (\<Sum>x\<leftarrow>xs. g x :: real)"
  using assms by (induction xs) (simp_all add: algebra_simps add_mono)

lemma ratio_bounds:
  assumes L: "1 - d \<le> L" "L \<le> 1" and H: "1 \<le> H" "H \<le> 1 + 2 * d"
    and d: "0 \<le> d" "d \<le> 1 / 4" and z: "L / H \<le> z" "z \<le> H / (L::real)"
  shows "\<bar>z - 1\<bar> \<le> 4 * d"
proof -
  have L0: "0 < L" using L(1) d by linarith
  have H0: "0 < H" using H(1) by linarith
  have "(1 - 4 * d) * H \<le> (1 - 4 * d) * (1 + 2 * d)"
    using H(2) d by (intro mult_left_mono) simp_all
  also have "\<dots> = 1 - 2 * d - 8 * (d * d)" by (simp add: algebra_simps)
  also have "\<dots> \<le> 1 - d" using d mult_nonneg_nonneg [of d d] by linarith
  finally have "(1 - 4 * d) * H \<le> L" using L(1) by linarith
  then have lo: "1 - 4 * d \<le> L / H" using H0 by (simp add: pos_le_divide_eq)
  have "0 \<le> d * (1 - 4 * d)" using d by (intro mult_nonneg_nonneg) simp_all
  then have "1 + 2 * d \<le> (1 + 4 * d) * (1 - d)" by (simp add: algebra_simps)
  also have "\<dots> \<le> (1 + 4 * d) * L" using L(1) d by (intro mult_left_mono) simp_all
  finally have "H \<le> (1 + 4 * d) * L" using H(2) by linarith
  then have hi: "H / L \<le> 1 + 4 * d" using L0 by (simp add: pos_divide_le_eq)
  from lo hi z show ?thesis by (simp add: abs_le_iff)
qed

lemma sandwich:
  fixes L H a b w z :: real
  assumes "0 < L" "0 < H" "0 < w" and "L * w \<le> H * a" and "L * b \<le> H * w"
    and "a / w \<le> z" and "z \<le> b / w"
  shows "L / H \<le> z" and "z \<le> H / L"
proof -
  have "L / H \<le> a / w" using assms(1-4) by (simp add: field_simps)
  then show "L / H \<le> z" using assms(6) by linarith
  have "b / w \<le> H / L" using assms(1-3,5) by (simp add: field_simps)
  then show "z \<le> H / L" using assms(7) by linarith
qed

lemma normalize_f64_safe:
  assumes "safe_vec xs"
  shows "\<exists>ys. normalize_f64 (map Fin xs) = Inr (map Fin ys)
            \<and> map Fin ys = map (\<lambda>v. fdiv v (fnorm (map Fin xs))) (map Fin xs)
            \<and> length ys = length xs
            \<and> \<bar>(\<Sum>y\<leftarrow>ys. y * y) - 1\<bar> \<le> pow2 (- 34)"
proof -
  let ?u = "pow2 (- 53)"
  let ?A = "\<Sum>x\<leftarrow>xs. x * x"
  let ?N = "length xs"
  from fnorm_safe [OF assms] obtain S n where
    S: "approx (Suc ?N) S ?A" and fn: "fnorm (map Fin xs) = Fin n"
    and bn: "(1 - ?u) * sqrt S \<le> n" "n \<le> (1 + ?u) * sqrt S"
    and nr: "pow2 (- 502) \<le> n" "n \<le> pow2 510" and S0: "0 < S" by blast
  have n0: "0 < n" using nr(1) pow2_pos [of "- 502"] by linarith
  define ys where "ys = map (\<lambda>x. fin_val (fdiv (Fin x) (Fin n))) xs"
  have each: "fdiv (Fin x) (Fin n) = Fin (fin_val (fdiv (Fin x) (Fin n)))
      \<and> \<bar>fin_val (fdiv (Fin x) (Fin n)) - x / n\<bar> \<le> ?u * \<bar>x / n\<bar>" if "x \<in> set xs" for x
  proof -
    have "in_range x" using assms that by (simp add: safe_vec_def)
    from fdiv_safe [OF this nr] show ?thesis by auto
  qed
  have m: "map Fin ys = map (\<lambda>v. fdiv v (Fin n)) (map Fin xs)"
    using each by (simp add: ys_def)
  have nz: "normalize_f64 (map Fin xs) = Inr (map Fin ys)"
    using fn n0 m by (simp add: normalize_f64_def)
  have len: "length ys = ?N" by (simp add: ys_def)
  \<comment> \<open>the squares of the quotients\<close>
  let ?c = "1 / (n * n)"
  have "\<forall>x\<in>set xs. ((1 - ?u) * (1 - ?u) * ?c) * (x * x)
            \<le> fin_val (fdiv (Fin x) (Fin n)) * fin_val (fdiv (Fin x) (Fin n))
         \<and> fin_val (fdiv (Fin x) (Fin n)) * fin_val (fdiv (Fin x) (Fin n))
            \<le> ((1 + ?u) * (1 + ?u) * ?c) * (x * x)"
  proof
    fix x assume "x \<in> set xs"
    from each [OF this] have "\<bar>fin_val (fdiv (Fin x) (Fin n)) - x / n\<bar> \<le> ?u * \<bar>x / n\<bar>" by simp
    from sq_rel [OF this] u_facts
    show "((1 - ?u) * (1 - ?u) * ?c) * (x * x)
            \<le> fin_val (fdiv (Fin x) (Fin n)) * fin_val (fdiv (Fin x) (Fin n))
         \<and> fin_val (fdiv (Fin x) (Fin n)) * fin_val (fdiv (Fin x) (Fin n))
            \<le> ((1 + ?u) * (1 + ?u) * ?c) * (x * x)"
      by (simp add: algebra_simps)
  qed
  from sum_list_scaled_bounds [OF this]
  have sy: "((1 - ?u) * (1 - ?u) * ?c) * ?A \<le> (\<Sum>y\<leftarrow>ys. y * y)"
    "(\<Sum>y\<leftarrow>ys. y * y) \<le> ((1 + ?u) * (1 + ?u) * ?c) * ?A"
    by (simp_all add: ys_def comp_def)
  \<comment> \<open>the square of the computed norm\<close>
  let ?L = "(1 - ?u) ^ (?N + 3)" and ?H = "(1 + ?u) ^ (?N + 3)"
  let ?z = "\<Sum>y\<leftarrow>ys. y * y"
  have A: "pow2 (- 1000) \<le> ?A" using safe_sumsq(1) [OF assms] .
  have A0: "0 < ?A" using A pow2_pos [of "- 1000"] by linarith
  have bS: "(1 - ?u) ^ Suc ?N * ?A \<le> S" "S \<le> (1 + ?u) ^ Suc ?N * ?A"
    using S A0 by (auto simp: approx_def)
  have r0: "0 < sqrt S" using S0 by simp
  have rr: "sqrt S * sqrt S = S" using S0 by simp
  have "((1 - ?u) * sqrt S) * ((1 - ?u) * sqrt S) \<le> n * n"
    using bn(1) u_facts r0 n0 by (intro mult_mono) simp_all
  moreover have "((1 - ?u) * sqrt S) * ((1 - ?u) * sqrt S) = (1 - ?u) * (1 - ?u) * (sqrt S * sqrt S)"
    by (simp only: mult_ac)
  ultimately have nn_lo1: "(1 - ?u) * (1 - ?u) * S \<le> n * n" by (simp only: rr)
  have "n * n \<le> ((1 + ?u) * sqrt S) * ((1 + ?u) * sqrt S)"
    using bn(2) n0 by (intro mult_mono) simp_all
  moreover have "((1 + ?u) * sqrt S) * ((1 + ?u) * sqrt S) = (1 + ?u) * (1 + ?u) * (sqrt S * sqrt S)"
    by (simp only: mult_ac)
  ultimately have nn_hi1: "n * n \<le> (1 + ?u) * (1 + ?u) * S" by (simp only: rr)
  have "(1 - ?u) * (1 - ?u) * ((1 - ?u) ^ Suc ?N * ?A) \<le> (1 - ?u) * (1 - ?u) * S"
    using bS(1) u_facts by (intro mult_left_mono) simp_all
  then have nn_lo: "?L * ?A \<le> n * n"
    using nn_lo1 by (simp add: numeral_3_eq_3 mult.assoc)
  have "(1 + ?u) * (1 + ?u) * S \<le> (1 + ?u) * (1 + ?u) * ((1 + ?u) ^ Suc ?N * ?A)"
    using bS(2) u_facts by (intro mult_left_mono) simp_all
  then have nn_hi: "n * n \<le> ?H * ?A"
    using nn_hi1 by (simp add: numeral_3_eq_3 mult.assoc)
  have m3: "?N + 3 \<le> 131072" using assms by (simp add: safe_vec_def)
  have L: "1 - pow2 (- 36) \<le> ?L" "0 < ?L" using pow_u_bounds(1,3) [OF m3] by simp_all
  have L1: "?L \<le> 1" using u_facts by (intro power_le_one) simp_all
  have H: "?H \<le> 1 + pow2 (- 35)" using pow_u_bounds(2) [OF m3] .
  have H1: "1 \<le> ?H" using u_facts by (intro one_le_power) simp_all
  have sqL: "?L \<le> (1 - ?u) * (1 - ?u)"
    using power_decreasing [of 2 "?N + 3" "1 - ?u"] u_facts by (simp add: power2_eq_square)
  have sqH: "(1 + ?u) * (1 + ?u) \<le> ?H"
    using power_increasing [of 2 "?N + 3" "1 + ?u"] u_facts by (simp add: power2_eq_square)
  have nn0: "0 < n * n" using n0 by simp
  have c1: "?L * (n * n) \<le> ?H * ((1 - ?u) * (1 - ?u) * ?A)"
  proof -
    have "?L * (n * n) \<le> ?L * (?H * ?A)" using nn_hi L(2) by (intro mult_left_mono) simp_all
    also have "\<dots> = ?H * (?L * ?A)" by (simp only: mult_ac)
    also have "\<dots> \<le> ?H * ((1 - ?u) * (1 - ?u) * ?A)"
      using sqL A0 H1 by (intro mult_left_mono mult_right_mono) simp_all
    finally show ?thesis .
  qed
  have c2: "?L * ((1 + ?u) * (1 + ?u) * ?A) \<le> ?H * (n * n)"
  proof -
    have "?L * ((1 + ?u) * (1 + ?u) * ?A) \<le> ?L * (?H * ?A)"
      using sqH A0 L(2) by (intro mult_left_mono mult_right_mono) simp_all
    also have "\<dots> = ?H * (?L * ?A)" by (simp only: mult_ac)
    also have "\<dots> \<le> ?H * (n * n)" using nn_lo H1 by (intro mult_left_mono) simp_all
    finally show ?thesis .
  qed
  have H0: "0 < ?H" using H1 by linarith
  have s1: "((1 - ?u) * (1 - ?u) * ?A) / (n * n) \<le> ?z" using sy(1) by simp
  have s2: "?z \<le> ((1 + ?u) * (1 + ?u) * ?A) / (n * n)" using sy(2) by simp
  have z_lo: "?L / ?H \<le> ?z" and z_hi: "?z \<le> ?H / ?L"
    using sandwich [OF L(2) H0 nn0 c1 c2 s1 s2] by blast+
  have d4: "pow2 (- 36) \<le> 1 / 4"
    using pow2_le_iff [of "- 36" "- 2"] pow2_minus [of 2] pow2_nat [of 2] by simp
  have "1 + pow2 (- 35) = 1 + 2 * pow2 (- 36)" using pow2_double [of "- 36"] by simp
  with H have H2: "?H \<le> 1 + 2 * pow2 (- 36)" by simp
  have "\<bar>?z - 1\<bar> \<le> 4 * pow2 (- 36)"
    using L(1) L1 H1 H2 _ d4 z_lo z_hi by (rule ratio_bounds) simp
  also have "4 * pow2 (- 36) = pow2 (- 34)"
    using pow2_add [of 2 "- 36"] pow2_nat [of 2] by simp
  finally have fin: "\<bar>?z - 1\<bar> \<le> pow2 (- 34)" .
  have m': "map Fin ys = map (\<lambda>v. fdiv v (fnorm (map Fin xs))) (map Fin xs)"
    using m by (simp only: fn)
  from nz m' len fin show ?thesis by blast
qed

subsection \<open>Dot products of vectors of norm about one\<close>

lemma rnd_abs_2:
  assumes "\<bar>x\<bar> < 2"
  shows "\<exists>y. rnd x = Fin y \<and> \<bar>y - x\<bar> \<le> pow2 (- 53)"
  using rnd_abs [of x 1] assms by simp

lemma rnd_abs_4:
  assumes "\<bar>x\<bar> < 4"
  shows "\<exists>y. rnd x = Fin y \<and> \<bar>y - x\<bar> \<le> pow2 (- 52)"
  using rnd_abs [of x 2] assms pow2_nat [of 2] by simp

lemma pow2_m52: "pow2 (- 52) = 2 * pow2 (- 53)"
  using pow2_double [of "- 53"] by simp

lemma count_eps:
  fixes m :: nat
  assumes "m \<le> 131072"
  shows "real m * pow2 (- 52) \<le> pow2 (- 35)"
proof -
  have "real m * pow2 (- 52) \<le> 131072 * pow2 (- 52)"
    using assms by (intro mult_right_mono) simp_all
  also have "\<dots> = pow2 17 * pow2 (- 52)" using pow2_nat [of 17] by simp
  also have "\<dots> = pow2 (- 35)" using pow2_add [of 17 "- 52"] by simp
  finally show ?thesis .
qed

lemma dot_fold:
  fixes ps :: "(real \<times> real) list"
  assumes "\<bar>t - T\<bar> \<le> real j * pow2 (- 52)"
    and "\<bar>T\<bar> + (\<Sum>(a, b)\<leftarrow>ps. \<bar>a * b\<bar>) \<le> 3 / 2"
    and "j + length ps \<le> 131072"
  shows "\<exists>s. foldl (\<lambda>acc (a, b). fadd acc (rnd (a * b))) (Fin t) ps = Fin s
           \<and> \<bar>s - (T + (\<Sum>(a, b)\<leftarrow>ps. a * b))\<bar> \<le> real (j + length ps) * pow2 (- 52)"
  using assms
proof (induction ps arbitrary: t T j)
  case Nil
  then show ?case by simp
next
  case (Cons ab ps)
  obtain a b where ab: "ab = (a, b)" by (cases ab)
  let ?rest = "\<Sum>(a, b)\<leftarrow>ps. \<bar>a * b\<bar>"
  have rest0: "0 \<le> ?rest" by (rule sum_list_nonneg) auto
  have bnd: "\<bar>T\<bar> + \<bar>a * b\<bar> + ?rest \<le> 3 / 2" using Cons.prems(2) by (simp add: ab)
  have "\<bar>a * b\<bar> \<le> 3 / 2" using bnd rest0 by linarith
  then have "\<bar>a * b\<bar> < 2" by linarith
  from rnd_abs_2 [OF this] obtain p where p: "rnd (a * b) = Fin p" "\<bar>p - a * b\<bar> \<le> pow2 (- 53)"
    by blast
  have j: "Suc j \<le> 131072" using Cons.prems(3) by simp
  have je: "real j * pow2 (- 52) + pow2 (- 52) \<le> pow2 (- 35)"
    using count_eps [OF j] by (simp add: algebra_simps)
  have small: "pow2 (- 35) \<le> 1 / 2" by (rule pow2_small) simp
  have "\<bar>t + p\<bar> \<le> \<bar>T\<bar> + \<bar>a * b\<bar> + \<bar>t - T\<bar> + \<bar>p - a * b\<bar>" by linarith
  also have "\<dots> \<le> 3 / 2 + real j * pow2 (- 52) + pow2 (- 53)"
    using bnd rest0 Cons.prems(1) p(2) by linarith
  also have "\<dots> < 2" using je small pow2_m52 pow2_pos [of "- 53"] by linarith
  finally have "\<bar>t + p\<bar> < 2" .
  from rnd_abs_2 [OF this] obtain s1 where
    s1: "rnd (t + p) = Fin s1" "\<bar>s1 - (t + p)\<bar> \<le> pow2 (- 53)" by blast
  have e1: "\<bar>s1 - (T + a * b)\<bar> \<le> real (Suc j) * pow2 (- 52)"
  proof -
    have "\<bar>s1 - (T + a * b)\<bar> \<le> \<bar>s1 - (t + p)\<bar> + \<bar>t - T\<bar> + \<bar>p - a * b\<bar>" by linarith
    also have "\<dots> \<le> pow2 (- 53) + real j * pow2 (- 52) + pow2 (- 53)"
      using s1(2) Cons.prems(1) p(2) by linarith
    also have "\<dots> = real (Suc j) * pow2 (- 52)" by (simp add: pow2_m52 algebra_simps)
    finally show ?thesis .
  qed
  have b1: "\<bar>T + a * b\<bar> + ?rest \<le> 3 / 2" using bnd by linarith
  have "\<exists>s. foldl (\<lambda>acc (a, b). fadd acc (rnd (a * b))) (Fin s1) ps = Fin s
           \<and> \<bar>s - (T + a * b + (\<Sum>(a, b)\<leftarrow>ps. a * b))\<bar> \<le> real (Suc j + length ps) * pow2 (- 52)"
    using Cons.prems(3) by (intro Cons.IH [OF e1 b1]) simp
  then show ?case by (simp add: ab p(1) s1(1) add.assoc)
qed

lemma abs_prod_le: "\<bar>a * b\<bar> \<le> (a * a + b * b) / (2::real)"
proof -
  have "0 \<le> (\<bar>a\<bar> - \<bar>b\<bar>) * (\<bar>a\<bar> - \<bar>b\<bar>)" by simp
  then have "2 * (\<bar>a\<bar> * \<bar>b\<bar>) \<le> \<bar>a\<bar> * \<bar>a\<bar> + \<bar>b\<bar> * \<bar>b\<bar>" by (simp add: algebra_simps)
  then show ?thesis by (simp add: abs_mult)
qed

lemma sum_abs_prod_le:
  assumes "length as = length bs"
  shows "(\<Sum>(a, b)\<leftarrow>zip as bs. \<bar>a * b\<bar>) \<le> ((\<Sum>a\<leftarrow>as. a * a) + (\<Sum>b\<leftarrow>bs. b * (b::real))) / 2"
  using assms
proof (induction as bs rule: list_induct2)
  case Nil
  then show ?case by simp
next
  case (Cons a as b bs)
  from Cons.IH abs_prod_le [of a b] show ?case by (simp add: add_divide_distrib) 
qed

lemma abs_dot_le: "\<bar>dot as bs\<bar> \<le> (\<Sum>(a, b)\<leftarrow>zip as bs. \<bar>a * b\<bar>)"
proof -
  have "\<bar>\<Sum>p\<leftarrow>ps. fst p * snd p\<bar> \<le> (\<Sum>p\<leftarrow>ps. \<bar>fst p * snd p\<bar>)" for ps :: "(real \<times> real) list"
  proof (induction ps)
    case Nil
    show ?case by simp
  next
    case (Cons p ps)
    then show ?case by simp
  qed
  then show ?thesis by (simp add: dot_def split_def)
qed

lemma fdot_near:
  assumes len: "length as = length bs" "length as \<le> 65536"
    and na: "(\<Sum>a\<leftarrow>as. a * a) \<le> 5 / 4" and nb: "(\<Sum>b\<leftarrow>bs. b * b) \<le> 5 / 4"
  shows "\<exists>s. fdot (map Fin as) (map Fin bs) = Fin s \<and> \<bar>s - dot as bs\<bar> \<le> pow2 (- 36)"
proof -
  define X where "X = (\<Sum>(a, b)\<leftarrow>zip as bs. \<bar>a * b\<bar>)"
  have "X \<le> ((\<Sum>a\<leftarrow>as. a * a) + (\<Sum>b\<leftarrow>bs. b * b)) / 2"
    unfolding X_def using len(1) by (rule sum_abs_prod_le)
  then have "X \<le> 3 / 2" using na nb by simp
  then have b: "(\<Sum>(a, b)\<leftarrow>zip as bs. \<bar>a * b\<bar>) \<le> 3 / 2" by (simp only: X_def)
  have "\<exists>s. foldl (\<lambda>acc (a, b). fadd acc (rnd (a * b))) (Fin 0) (zip as bs) = Fin s
           \<and> \<bar>s - (0 + (\<Sum>(a, b)\<leftarrow>zip as bs. a * b))\<bar> \<le> real (0 + length (zip as bs)) * pow2 (- 52)"
    using b len by (intro dot_fold) simp_all
  then obtain s where s: "fdot (map Fin as) (map Fin bs) = Fin s"
    "\<bar>s - dot as bs\<bar> \<le> real (length as) * pow2 (- 52)"
    using len by (auto simp: fdot_fin dot_def)
  have "real (length as) * pow2 (- 52) \<le> 65536 * pow2 (- 52)"
    using len(2) by (intro mult_right_mono) simp_all
  also have "\<dots> = pow2 16 * pow2 (- 52)" using pow2_nat [of 16] by simp
  also have "\<dots> = pow2 (- 36)" using pow2_add [of 16 "- 52"] by simp
  finally show ?thesis using s by force
qed

lemma eta_multiples:
  "pow2 (- 52) = 2 * pow2 (- 53)" "pow2 (- 36) = 131072 * pow2 (- 53)"
  "pow2 (- 34) = 524288 * pow2 (- 53)" "pow2 (- 33) = 1048576 * pow2 (- 53)"
  "pow2 (- 32) = 2097152 * pow2 (- 53)" "pow2 (- 30) = 8388608 * pow2 (- 53)"
  "pow2 (- 53) \<le> 1 / 8388608 / 1048576"
proof -
  show "pow2 (- 52) = 2 * pow2 (- 53)" by (rule pow2_m52)
  show "pow2 (- 36) = 131072 * pow2 (- 53)"
    using pow2_add [of 17 "- 53"] pow2_nat [of 17] by simp
  show "pow2 (- 34) = 524288 * pow2 (- 53)"
    using pow2_add [of 19 "- 53"] pow2_nat [of 19] by simp
  show "pow2 (- 33) = 1048576 * pow2 (- 53)"
    using pow2_add [of 20 "- 53"] pow2_nat [of 20] by simp
  show "pow2 (- 32) = 2097152 * pow2 (- 53)"
    using pow2_add [of 21 "- 53"] pow2_nat [of 21] by simp
  show "pow2 (- 30) = 8388608 * pow2 (- 53)"
    using pow2_add [of 23 "- 53"] pow2_nat [of 23] by simp
  have "pow2 (- 53) \<le> pow2 (- 43)" by simp
  also have "pow2 (- 43) = 1 / pow2 43" by (rule pow2_minus)
  also have "pow2 43 = 8388608 * 1048576" using pow2_nat [of 43] by simp
  finally show "pow2 (- 53) \<le> 1 / 8388608 / 1048576" by simp
qed

lemma sqrt_between:
  fixes lo hi P :: real
  assumes "0 \<le> lo" "lo * lo \<le> P" "P \<le> hi * hi" "0 \<le> hi"
  shows "lo \<le> sqrt P" and "sqrt P \<le> hi"
proof -
  have "sqrt (lo * lo) \<le> sqrt P" using assms(2) by (rule real_sqrt_le_mono)
  then show "lo \<le> sqrt P" using assms(1) by simp
  have "sqrt P \<le> sqrt (hi * hi)" using assms(3) by (rule real_sqrt_le_mono)
  then show "sqrt P \<le> hi" using assms(4) by simp
qed

lemma fclip_fin:
  "fclip (Fin D) (Fin 0) (Fin 2) = Fin (if D \<le> 0 then 0 else if 2 \<le> D then 2 else D)"
  by simp

lemma cosine_f64_near:
  assumes len: "length as = length bs" "length as \<le> 65536"
    and na: "\<bar>(\<Sum>a\<leftarrow>as. a * a) - 1\<bar> \<le> pow2 (- 34)"
    and nb: "\<bar>(\<Sum>b\<leftarrow>bs. b * b) - 1\<bar> \<le> pow2 (- 34)"
  shows "\<exists>d. cosine_f64 (map Fin as) (map Fin bs) = Inr (Fin d)
           \<and> \<bar>d - (1 - dot as bs)\<bar> \<le> pow2 (- 30) \<and> 0 \<le> d \<and> d \<le> 2"
proof -
  define eta where "eta = pow2 (- 53)"
  define gam where "gam = 1048576 * eta"
  have eta: "0 < eta" "eta \<le> 1 / 8388608 / 1048576"
    using eta_multiples(7) by (simp_all add: eta_def)
  note em = eta_multiples(1-6) [folded eta_def]
  have na': "\<bar>(\<Sum>a\<leftarrow>as. a * a) - 1\<bar> \<le> 524288 * eta" using na by (simp only: em)
  have nb': "\<bar>(\<Sum>b\<leftarrow>bs. b * b) - 1\<bar> \<le> 524288 * eta" using nb by (simp only: em)
  have sa: "(\<Sum>a\<leftarrow>as. a * a) \<le> 5 / 4" "(\<Sum>b\<leftarrow>bs. b * b) \<le> 5 / 4"
    using na' nb' eta by linarith+
  \<comment> \<open>the three dot products\<close>
  from fdot_near [OF len sa] obtain uv where
    uv: "fdot (map Fin as) (map Fin bs) = Fin uv" "\<bar>uv - dot as bs\<bar> \<le> 131072 * eta"
    by (auto simp only: em)
  from fdot_near [OF refl len(2) sa(1) sa(1)] obtain uu where
    uu: "fdot (map Fin as) (map Fin as) = Fin uu" "\<bar>uu - dot as as\<bar> \<le> 131072 * eta"
    by (auto simp only: em)
  have lb: "length bs \<le> 65536" using len by simp
  from fdot_near [OF refl lb sa(2) sa(2)] obtain vv where
    vv: "fdot (map Fin bs) (map Fin bs) = Fin vv" "\<bar>vv - dot bs bs\<bar> \<le> 131072 * eta"
    by (auto simp only: em)
  have "\<bar>uu - (\<Sum>a\<leftarrow>as. a * a)\<bar> \<le> 131072 * eta" using uu(2) by (simp only: dot_self)
  then have uu1: "1 - gam \<le> uu" "uu \<le> 1 + gam"
    unfolding gam_def using na' eta by linarith+
  have "\<bar>vv - (\<Sum>b\<leftarrow>bs. b * b)\<bar> \<le> 131072 * eta" using vv(2) by (simp only: dot_self)
  then have vv1: "1 - gam \<le> vv" "vv \<le> 1 + gam"
    unfolding gam_def using nb' eta by linarith+
  have g: "0 < gam" "gam \<le> 1 / 8388608" using eta by (simp_all add: gam_def)
  have dotb: "\<bar>dot as bs\<bar> \<le> 1 + 524288 * eta"
  proof -
    have "\<bar>dot as bs\<bar> \<le> (\<Sum>(a, b)\<leftarrow>zip as bs. \<bar>a * b\<bar>)" by (rule abs_dot_le)
    also have "\<dots> \<le> ((\<Sum>a\<leftarrow>as. a * a) + (\<Sum>b\<leftarrow>bs. b * b)) / 2"
      using len(1) by (rule sum_abs_prod_le)
    also have "\<dots> \<le> 1 + 524288 * eta" using na' nb' by (simp add: abs_le_iff)
    finally show ?thesis .
  qed
  \<comment> \<open>the product of the squared norms and its square root\<close>
  have p_lo: "(1 - gam) * (1 - gam) \<le> uu * vv"
    using uu1(1) vv1(1) g by (intro mult_mono) simp_all
  have p_hi: "uu * vv \<le> (1 + gam) * (1 + gam)"
    using uu1 vv1 g by (intro mult_mono) simp_all
  have "(1 + gam) * (1 + gam) \<le> 3 / 2"
  proof -
    have "(1 + gam) * (1 + gam) \<le> (1 + 1 / 8) * (1 + 1 / 8)"
      using g by (intro mult_mono) simp_all
    then show ?thesis by simp
  qed
  then have "\<bar>uu * vv\<bar> < 2" using p_hi p_lo mult_nonneg_nonneg [of "1 - gam" "1 - gam"] g
    by linarith
  from rnd_abs_2 [OF this] obtain P where P: "rnd (uu * vv) = Fin P" "\<bar>P - uu * vv\<bar> \<le> eta"
    by (auto simp: eta_def)
  let ?lo = "1 - gam - eta" and ?hi = "1 + gam + eta"
  have lo0: "0 \<le> ?lo" and hi0: "0 \<le> ?hi" using g eta by linarith+
  have "?hi * ?hi = (1 + gam) * (1 + gam) + eta + eta * (1 + 2 * gam + eta)"
    by (simp add: algebra_simps)
  moreover have "0 \<le> eta * (1 + 2 * gam + eta)" using g eta by (intro mult_nonneg_nonneg) simp_all
  ultimately have P_hi: "P \<le> ?hi * ?hi" using P(2) p_hi by linarith
  have "(1 - gam) * (1 - gam) - eta = ?lo * ?lo + eta * (1 - 2 * gam - eta)"
    by (simp add: algebra_simps)
  moreover have "0 \<le> eta * (1 - 2 * gam - eta)" using g eta by (intro mult_nonneg_nonneg) simp_all
  ultimately have P_lo: "?lo * ?lo \<le> P" using P(2) p_lo by linarith
  have P0: "0 \<le> P" using P_lo mult_nonneg_nonneg [OF lo0 lo0] by linarith
  have r: "?lo \<le> sqrt P" "sqrt P \<le> ?hi" using sqrt_between [OF lo0 P_lo P_hi hi0] by simp_all
  have "\<bar>sqrt P\<bar> < 2" using r lo0 g eta by linarith
  from rnd_abs_2 [OF this] obtain Q where Q: "rnd (sqrt P) = Fin Q" "\<bar>Q - sqrt P\<bar> \<le> eta"
    by (auto simp: eta_def)
  have Q1: "\<bar>Q - 1\<bar> \<le> 2097152 * eta" using Q(2) r eta gam_def by linarith
  have Q34: "3 / 4 \<le> Q" using Q1 eta by linarith
  have Q0: "0 < Q" using Q34 by linarith
  \<comment> \<open>the quotient\<close>
  have uvb: "\<bar>uv\<bar> \<le> 9 / 8" using uv(2) dotb eta by linarith
  have "\<bar>uv\<bar> \<le> 3 / 2 * Q" using uvb Q34 by linarith
  then have q32: "\<bar>uv / Q\<bar> \<le> 3 / 2" using Q0 by (simp add: pos_divide_le_eq)
  then have "\<bar>uv / Q\<bar> < 2" by linarith
  from rnd_abs_2 [OF this] obtain R where R: "rnd (uv / Q) = Fin R" "\<bar>R - uv / Q\<bar> \<le> eta"
    by (auto simp: eta_def)
  have "\<bar>1 - R\<bar> < 4" using R(2) q32 eta by linarith
  from rnd_abs_4 [OF this] obtain D where D: "rnd (1 - R) = Fin D" "\<bar>D - (1 - R)\<bar> \<le> 2 * eta"
    by (auto simp: em)
  have "uv / Q - uv = uv / Q * (1 - Q)" using Q0 by (simp add: field_simps)
  then have "\<bar>uv / Q - uv\<bar> = \<bar>uv / Q\<bar> * \<bar>1 - Q\<bar>" by (simp only: abs_mult)
  also have "\<dots> \<le> 3 / 2 * (2097152 * eta)"
    using q32 Q1 by (intro mult_mono) simp_all
  finally have qe: "\<bar>uv / Q - uv\<bar> \<le> 3145728 * eta" by simp
  have DT: "\<bar>D - (1 - dot as bs)\<bar> \<le> 3276803 * eta"
    using D(2) R(2) qe uv(2) by linarith
  \<comment> \<open>the clipped distance\<close>
  define d where "d = (if D \<le> 0 then 0 else if 2 \<le> D then 2 else D)"
  have cos: "cosine_f64 (map Fin as) (map Fin bs) = Inr (Fin d)"
    using len(1) Q0 P0
    by (simp add: cosine_f64_def uv(1) uu(1) vv(1) P(1) Q(1) R(1) fsub_def D(1) d_def
        del: fclip.simps)
      (simp add: fclip_fin)
  consider "D \<le> 0" "d = 0" | "2 \<le> D" "d = 2" | "0 < D" "D < 2" "d = D"
    by (cases "D \<le> 0"; cases "2 \<le> D") (simp_all add: d_def)
  then have "\<bar>d - (1 - dot as bs)\<bar> \<le> 3801091 * eta"
    using DT dotb eta by cases linarith+
  then have "\<bar>d - (1 - dot as bs)\<bar> \<le> pow2 (- 30)" using eta em(6) by linarith
  moreover have "0 \<le> d" "d \<le> 2" by (simp_all add: d_def)
  ultimately show ?thesis using cos by blast
qed

subsection \<open>Normalization in double precision\<close>

lemma pow2_m30_le: "pow2 (- 30) \<le> 1 / 10 ^ 9"
proof -
  have "pow2 (- 30) = 1 / pow2 30" by (rule pow2_minus)
  also have "pow2 30 = 1073741824" using pow2_nat [of 30] by simp
  finally show ?thesis by simp
qed

lemma pow2_m34_le: "pow2 (- 34) \<le> 1 / 10 ^ 9"
proof -
  have "pow2 (- 34) \<le> pow2 (- 30)" by simp
  with pow2_m30_le show ?thesis by linarith
qed

lemma sqrt_near_one:
  fixes z :: real
  assumes "\<bar>z - 1\<bar> \<le> e" "e \<le> 1"
  shows "\<bar>sqrt z - 1\<bar> \<le> e"
proof -
  have z0: "0 \<le> z" using assms by linarith
  have e0: "0 \<le> e" using assms(1) by linarith
  have "(1 - e) * (1 - e) \<le> 1 - e" using assms(2) e0 mult_left_le [of "1 - e" "1 - e"] by simp
  then have lo: "(1 - e) * (1 - e) \<le> z" using assms(1) by linarith
  have "1 + e \<le> (1 + e) * (1 + e)" using e0 mult_left_mono [of 1 "1 + e" "1 + e"] by simp
  then have hi: "z \<le> (1 + e) * (1 + e)" using assms(1) by linarith
  have "1 - e \<le> sqrt z" "sqrt z \<le> 1 + e"
    using sqrt_between [of "1 - e" z "1 + e"] lo hi assms(2) e0 by simp_all
  then show ?thesis by linarith
qed

text \<open>
  C4: the claim holds in this amended form. Let \<open>v\<close> be a vector of at most 65536
  doubles with a non-zero component whose non-zero components have magnitudes between \<open>2 ^ - 500\<close> and \<open>2 ^ 500\<close>. Then
  \<open>normalize\<close> returns; the result is a newly allocated array (the store grows by one
  array, and the array of the argument, like every other, is what it was); the computed
  norm is a positive finite double, every component of the result is the double quotient
  of the component of \<open>v\<close> by it, and the Euclidean norm of the result differs from 1 by
  at most \<open>10 ^ - 9\<close>.
\<close>

theorem normalize_f64_unit_norm:
  assumes "safe_vec xs" and "a < length st" and "st ! a = map Fin xs"
  shows "\<exists>ys n. normalize_st st a = (st @ [map Fin ys], Inr (length st))
           \<and> normalize_f64 (map Fin xs) = Inr (map Fin ys)
           \<and> fnorm (map Fin xs) = Fin n \<and> 0 < n
           \<and> map Fin ys = map (\<lambda>x. fdiv x (Fin n)) (map Fin xs)
           \<and> \<bar>linalg_norm ys - 1\<bar> \<le> 1 / 10 ^ 9"
proof -
  from normalize_f64_safe [OF assms(1)] obtain ys where
    ys: "normalize_f64 (map Fin xs) = Inr (map Fin ys)"
    "map Fin ys = map (\<lambda>v. fdiv v (fnorm (map Fin xs))) (map Fin xs)"
    "\<bar>(\<Sum>y\<leftarrow>ys. y * y) - 1\<bar> \<le> pow2 (- 34)" by blast
  from fnorm_safe [OF assms(1)] obtain n where
    n: "fnorm (map Fin xs) = Fin n" "pow2 (- 502) \<le> n" by blast
  have n0: "0 < n" using n(2) pow2_pos [of "- 502"] by linarith
  have "pow2 (- 34) \<le> 1" by (rule pow2_le_one) simp
  with ys(3) have "\<bar>sqrt (\<Sum>y\<leftarrow>ys. y * y) - 1\<bar> \<le> pow2 (- 34)" by (rule sqrt_near_one)
  then have e: "\<bar>linalg_norm ys - 1\<bar> \<le> 1 / 10 ^ 9"
    unfolding linalg_norm_def using pow2_m34_le by linarith
  have "normalize_st st a = (st @ [map Fin ys], Inr (length st))"
    by (simp add: normalize_st_def assms(3) ys(1))
  with ys(1) ys(2) [unfolded n(1)] n(1) n0 e show ?thesis by blast
qed

lemma in_range_small: "1 \<le> \<bar>x\<bar> \<Longrightarrow> \<bar>x\<bar> \<le> 4 \<Longrightarrow> in_range x"
proof -
  assume a: "1 \<le> \<bar>x\<bar>" "\<bar>x\<bar> \<le> 4"
  have "pow2 (- 500) \<le> 1" by (rule pow2_le_one) simp
  then have lo: "pow2 (- 500) \<le> \<bar>x\<bar>" using a(1) by linarith
  have "pow2 2 = 4" using pow2_nat [of 2] by simp
  then have "\<bar>x\<bar> \<le> pow2 2" using a(2) by simp
  then have "\<bar>x\<bar> \<le> pow2 500" by (rule pow2_le_trans) simp
  with lo have "pow2 (- 500) \<le> \<bar>x\<bar>" "\<bar>x\<bar> \<le> pow2 500" by simp_all
  then show ?thesis by (simp add: in_range_def)
qed

theorem normalize_f64_unit_norm_witness:
  "\<exists>ys n. normalize_st [[Fin 3, Fin 4]] 0 = ([[Fin 3, Fin 4], map Fin ys], Inr 1)
       \<and> normalize_f64 [Fin 3, Fin 4] = Inr (map Fin ys)
       \<and> fnorm [Fin 3, Fin 4] = Fin n \<and> 0 < n
       \<and> map Fin ys = [fdiv (Fin 3) (Fin n), fdiv (Fin 4) (Fin n)]
       \<and> \<bar>linalg_norm ys - 1\<bar> \<le> 1 / 10 ^ 9"
proof -
  have s: "safe_vec [3, 4]" by (simp add: safe_vec_def in_range_small)
  from normalize_f64_unit_norm [OF s, of 0 "[[Fin 3, Fin 4]]"] show ?thesis by auto
qed

lemma pow2_600: "2 ^ 600 = pow2 600" "1 / 2 ^ 600 = pow2 (- 600)"
  using pow2_nat [of 600] pow2_minus [of 600] by simp_all

lemma rnd_pow2_1200: "rnd (pow2 1200) = PInf" "rnd (pow2 (- 1200)) = Fin 0"
proof -
  show "rnd (pow2 1200) = PInf" by (rule rnd_pow2_overflow) simp
  show "rnd (pow2 (- 1200)) = Fin 0" by (rule rnd_underflow) simp
qed

lemma pow2_600_sq: "pow2 600 * pow2 600 = pow2 1200" "pow2 (- 600) * pow2 (- 600) = pow2 (- 1200)"
  using pow2_add [of 600 600] pow2_add [of "- 600" "- 600"] by simp_all

lemma normalize_f64_big: "normalize_f64 [Fin (pow2 600), Fin 0] = Inr [Fin 0, Fin 0]"
  by (simp add: normalize_f64_def fnorm_def fdot_def pow2_600_sq rnd_pow2_1200)

lemma normalize_f64_tiny: "normalize_f64 [Fin (pow2 (- 600)), Fin 0] = Inl ZeroVector"
  by (simp add: normalize_f64_def fnorm_def fdot_def pow2_600_sq rnd_pow2_1200)

text \<open>
  Outside that range the norm of the result need not be near 1, and a non-zero vector
  can be refused. The square of \<open>2 ^ 600\<close> overflows, the computed norm of
  \<open>[2 ^ 600, 0]\<close> is infinite, and the result is \<open>[0, 0]\<close>, of norm 0. The square of
  \<open>2 ^ - 600\<close> underflows, the computed norm of \<open>[2 ^ - 600, 0]\<close> is zero, and
  \<open>normalize\<close> raises the zero-vector error for a vector that is not zero.
\<close>

theorem normalize_f64_overflow:
  "normalize_f64 [Fin (2 ^ 600), Fin 0] = Inr [Fin 0, Fin 0]
   \<and> linalg_norm [0, 0] = 0
   \<and> normalize_f64 [Fin (1 / 2 ^ 600), Fin 0] = Inl ZeroVector"
  unfolding pow2_600(1) using normalize_f64_big normalize_f64_tiny
  by (simp add: linalg_norm_def pow2_minus [symmetric])

subsection \<open>The drift in double precision\<close>

lemma observe_f64_safe:
  assumes "safe_vec origin" and "safe_vec v" and "length v = length origin"
  shows "\<exists>os us d. normalize_f64 (map Fin origin) = Inr (map Fin os)
           \<and> normalize_f64 (map Fin v) = Inr (map Fin us)
           \<and> observe_f64 (map Fin os) thr (map Fin v) = Inr (fle (Fin d) thr, Fin d)
           \<and> \<bar>d - (1 - dot os us)\<bar> \<le> 1 / 10 ^ 9 \<and> 0 \<le> d \<and> d \<le> 2"
proof -
  from normalize_f64_safe [OF assms(1)] obtain os where
    os: "normalize_f64 (map Fin origin) = Inr (map Fin os)" "length os = length origin"
    "\<bar>(\<Sum>y\<leftarrow>os. y * y) - 1\<bar> \<le> pow2 (- 34)" by blast
  from normalize_f64_safe [OF assms(2)] obtain us where
    us: "normalize_f64 (map Fin v) = Inr (map Fin us)" "length us = length v"
    "\<bar>(\<Sum>y\<leftarrow>us. y * y) - 1\<bar> \<le> pow2 (- 34)" by blast
  have len: "length os = length us" "length os \<le> 65536"
    using os(2) us(2) assms by (simp_all add: safe_vec_def)
  from cosine_f64_near [OF len os(3) us(3)] obtain d where
    d: "cosine_f64 (map Fin os) (map Fin us) = Inr (Fin d)"
    "\<bar>d - (1 - dot os us)\<bar> \<le> pow2 (- 30)" "0 \<le> d" "d \<le> 2" by blast
  have "observe_f64 (map Fin os) thr (map Fin v) = Inr (fle (Fin d) thr, Fin d)"
    by (simp add: observe_f64_def us(1) d(1))
  moreover have "\<bar>d - (1 - dot os us)\<bar> \<le> 1 / 10 ^ 9" using d(2) pow2_m30_le by linarith
  ultimately show ?thesis using os(1) us(1) d(3,4) by blast
qed

lemma rnd_hundredth: "\<exists>t. rnd (1 / 100) = Fin t \<and> 0 \<le> t \<and> t < 1"
proof -
  have "\<bar>1 / 100 :: real\<bar> < 2" by simp
  from rnd_abs_2 [OF this] obtain t where t: "rnd (1 / 100) = Fin t" "\<bar>t - 1 / 100\<bar> \<le> pow2 (- 53)"
    by blast
  have "pow2 (- 53) \<le> 1 / 8388608 / 1048576" by (rule eta_multiples(7))
  then have "0 \<le> t" "t < 1" using t(2) by (simp_all add: abs_le_iff)
  with t(1) show ?thesis by blast
qed

lemma normalize_f64_e1:
  "normalize_f64 [Fin 1, Fin 0] = Inr [Fin 1, Fin 0]"
  "normalize_f64 [Fin 0, Fin 1] = Inr [Fin 0, Fin 1]"
  "normalize_f64 [Fin (- 1), Fin 0] = Inr [Fin (- 1), Fin 0]"
  by (simp_all add: normalize_f64_def fnorm_def fdot_def)

lemma cosine_f64_e1:
  "cosine_f64 [Fin 1, Fin 0] [Fin 1, Fin 0] = Inr (Fin 0)"
  "cosine_f64 [Fin 1, Fin 0] [Fin 0, Fin 1] = Inr (Fin 1)"
  "cosine_f64 [Fin 1, Fin 0] [Fin (- 1), Fin 0] = Inr (Fin 2)"
  "cosine_f64 [Fin 1, Fin 0] [Fin 0, Fin 0] = Inr NaN"
  by (simp_all add: cosine_f64_def fdot_def fsub_def)

lemma observe_f64_scenario:
  "observe_f64 [Fin 1, Fin 0] (rnd (1 / 100)) [Fin 1, Fin 0] = Inr (True, Fin 0)"
  "observe_f64 [Fin 1, Fin 0] (rnd (1 / 100)) [Fin 0, Fin 1] = Inr (False, Fin 1)"
  "observe_f64 [Fin 1, Fin 0] (rnd (1 / 100)) [Fin (- 1), Fin 0] = Inr (False, Fin 2)"
  using rnd_hundredth by (auto simp: observe_f64_def normalize_f64_e1 cosine_f64_e1)

text \<open>
  C2: the claim holds in this amended form. Let the origin and the observed vector have
  the same length, at most 65536, a non-zero component each, and non-zero components of magnitudes between
  \<open>2 ^ - 500\<close> and \<open>2 ^ 500\<close>. Then the constructor's \<open>normalize\<close> and \<open>observe\<close>
  return, the decision is \<open>drift <= threshold\<close>, and the drift is a double between 0 and
  2 that differs from one minus the dot product of the normalized origin and the
  normalized observed vector by at most \<open>10 ^ - 9\<close>. With origin \<open>[1, 0]\<close> and threshold
  0.01, observing \<open>[1, 0]\<close>, \<open>[0, 1]\<close> and \<open>[-1, 0]\<close> gives exactly the drifts 0, 1 and 2
  and the decisions safe, unsafe and unsafe.
\<close>

theorem observe_f64_drift:
  "(\<forall>origin v thr.
      safe_vec origin \<and> safe_vec v \<and> length v = length origin \<longrightarrow>
      (\<exists>os us d.
          normalize_f64 (map Fin origin) = Inr (map Fin os)
          \<and> normalize_f64 (map Fin v) = Inr (map Fin us)
          \<and> observe_f64 (map Fin os) thr (map Fin v) = Inr (fle (Fin d) thr, Fin d)
          \<and> \<bar>d - (1 - dot os us)\<bar> \<le> 1 / 10 ^ 9 \<and> 0 \<le> d \<and> d \<le> 2))
   \<and> normalize_f64 [Fin 1, Fin 0] = Inr [Fin 1, Fin 0]
   \<and> observe_f64 [Fin 1, Fin 0] (rnd (1 / 100)) [Fin 1, Fin 0] = Inr (True, Fin 0)
   \<and> observe_f64 [Fin 1, Fin 0] (rnd (1 / 100)) [Fin 0, Fin 1] = Inr (False, Fin 1)
   \<and> observe_f64 [Fin 1, Fin 0] (rnd (1 / 100)) [Fin (- 1), Fin 0] = Inr (False, Fin 2)"
  using observe_f64_safe observe_f64_scenario normalize_f64_e1(1) by blast

theorem observe_f64_drift_witness:
  "\<exists>os us d.
      normalize_f64 [Fin 3, Fin 4] = Inr (map Fin os)
      \<and> normalize_f64 [Fin 4, Fin 3] = Inr (map Fin us)
      \<and> observe_f64 (map Fin os) (rnd (15 / 100)) [Fin 4, Fin 3]
          = Inr (fle (Fin d) (rnd (15 / 100)), Fin d)
      \<and> \<bar>d - (1 - dot os us)\<bar> \<le> 1 / 10 ^ 9 \<and> 0 \<le> d \<and> d \<le> 2"
proof -
  have s: "safe_vec [3, 4] \<and> safe_vec [4, 3] \<and> length [4, 3 :: real] = length [3, 4 :: real]"
    by (simp add: safe_vec_def in_range_small)
  from observe_f64_drift [THEN conjunct1, rule_format, OF s, of "rnd (15 / 100)"]
  show ?thesis by simp
qed

text \<open>
  For other non-zero vectors the drift need not be that number, nor a number at all.
  With origin \<open>[1, 0]\<close> and threshold 0.01, the observed vector \<open>[2 ^ 600, 0]\<close> is
  normalized to \<open>[0, 0]\<close>; one minus the dot product of the two normalized vectors is 1,
  but the drift returned is NaN (which lies in no interval), with the decision unsafe.
  The observed vector \<open>[2 ^ - 600, 0]\<close>, which is not zero, makes \<open>observe\<close> raise the
  zero-vector error, so that no drift is returned.
\<close>

theorem observe_f64_overflow:
  "normalize_f64 [Fin 1, Fin 0] = Inr [Fin 1, Fin 0]
   \<and> normalize_f64 [Fin (2 ^ 600), Fin 0] = Inr [Fin 0, Fin 0]
   \<and> dot [1, 0] [0, 0] = 0
   \<and> observe_f64 [Fin 1, Fin 0] (rnd (1 / 100)) [Fin (2 ^ 600), Fin 0] = Inr (False, NaN)
   \<and> observe_f64 [Fin 1, Fin 0] (rnd (1 / 100)) [Fin (1 / 2 ^ 600), Fin 0] = Inl ZeroVector"
  unfolding pow2_600(1) using normalize_f64_big normalize_f64_tiny
  by (simp add: observe_f64_def normalize_f64_e1 cosine_f64_e1 dot_def pow2_minus [symmetric])

subsection \<open>The exported report\<close>

lemma json_roundtrip:
  "json_native v \<Longrightarrow> \<exists>j. json_encode v = Inr j \<and> json_decode j = v"
  "list_all json_native vs \<Longrightarrow> \<exists>js. json_encode_list vs = Inr js \<and> map json_decode js = vs"
  "list_all (\<lambda>(k, x). json_native x) kvs
     \<Longrightarrow> \<exists>kjs. json_encode_items kvs = Inr kjs \<and> map (\<lambda>(k, j). (k, json_decode j)) kjs = kvs"
  by (induction v and vs and kvs rule: json_encode_json_encode_list_json_encode_items.induct)
    auto

lemma report_py_native:
  assumes "\<forall>e\<in>set (history s). json_native (sid_py (step_id e))"
  shows "json_native (report_py s now)"
  using assms by (simp add: report_py_def event_py_def list_all_iff)

lemma export_report_native:
  assumes "\<forall>e\<in>set (history s). json_native (sid_py (step_id e))" and "writable filename"
  shows "\<exists>doc. export_report writable fs s filename now = (fs(filename \<mapsto> Document doc), Inr ())
           \<and> json_load (Document doc) = Inr (report_py s now)"
proof -
  from json_roundtrip(1) [OF report_py_native [OF assms(1)], of now]
  obtain doc where "json_encode (report_py s now) = Inr doc" "json_decode doc = report_py s now"
    by blast
  then have "export_report writable fs s filename now = (fs(filename \<mapsto> Document doc), Inr ())
      \<and> json_load (Document doc) = Inr (report_py s now)"
    using assms(2) by (simp add: export_report_def json_load_def)
  then show ?thesis by blast
qed

text \<open>
  C7: the claim holds in this amended form. Take a fresh Sentinel, any sequence of
  successful calls of \<open>observe\<close> whose step identifiers are absent or values JSON has a form for (no tuple, no foreign
  object inside), and a file name that can be opened for writing. Then \<open>export_report\<close>
  returns and leaves a whole document in the file; \<open>json.load\<close> reads it back as a
  report whose meta holds the threshold and the origin hash of the Sentinel and whose
  audit trail has as many entries as there were calls, with the step identifiers of the
  calls and the status labels of their outcomes, in order.
\<close>

theorem export_report_roundtrip:
  assumes "LioraSentinel digest origin thr w = Inr s0"
    and "observe_all s0 calls = (s, map Inr outs)"
    and "\<forall>c\<in>set calls. json_native (sid_py (fst (snd c)))"
    and "writable filename"
  shows "\<exists>doc r m evs.
           export_report writable fs s filename now = (fs(filename \<mapsto> Document doc), Inr ())
         \<and> json_load (Document doc) = Inr r
         \<and> py_get r ''meta'' = Some m
         \<and> py_get m ''threshold'' = Some (PyFloat (sentinel.threshold s))
         \<and> py_get m ''origin_hash'' = Some (PyStr (sentinel.origin_hash s))
         \<and> py_get r ''audit_trail'' = Some (PyList evs)
         \<and> length evs = length calls
         \<and> map (\<lambda>e. py_get e ''step_id'') evs = map (\<lambda>c. Some (sid_py (fst (snd c)))) calls
         \<and> map (\<lambda>e. py_get e ''status'') evs = map (\<lambda>out. Some (PyStr (label out))) outs"
proof -
  from observe_all_success [OF assms(2)] LioraSentinel_Inr(4) [OF assms(1)]
  have m: "map (\<lambda>e. (step_id e, timestamp e)) (history s) = map snd calls"
    and l: "map status (history s) = map label outs" by auto
  from m have "map fst (map (\<lambda>e. (step_id e, timestamp e)) (history s)) = map fst (map snd calls)"
    by simp
  then have sid: "map step_id (history s) = map (\<lambda>c. fst (snd c)) calls"
    by (simp add: comp_def)
  then have "length (map step_id (history s)) = length (map (\<lambda>c. fst (snd c)) calls)" by simp
  then have len: "length (history s) = length calls" by simp
  have nat: "\<forall>e\<in>set (history s). json_native (sid_py (step_id e))"
  proof
    fix e assume "e \<in> set (history s)"
    then have "step_id e \<in> set (map step_id (history s))" by simp
    then have "step_id e \<in> set (map (\<lambda>c. fst (snd c)) calls)" by (simp only: sid)
    then obtain c where "c \<in> set calls" "step_id e = fst (snd c)" by auto
    with assms(3) show "json_native (sid_py (step_id e))" by simp
  qed
  from export_report_native [of s writable filename fs now] nat assms(4) obtain doc where
    doc: "export_report writable fs s filename now = (fs(filename \<mapsto> Document doc), Inr ())"
    "json_load (Document doc) = Inr (report_py s now)" by blast
  let ?m = "PyDict [(''module'', PyStr ''Liora Identity Observer''),
                      (''version'', PyStr ''1.2''),
                      (''generated_at'', PyStr now),
                      (''origin_hash'', PyStr (sentinel.origin_hash s)),
                      (''threshold'', PyFloat (sentinel.threshold s))]"
  let ?evs = "map event_py (history s)"
  have g1: "py_get (report_py s now) ''meta'' = Some ?m"
    and g2: "py_get ?m ''threshold'' = Some (PyFloat (sentinel.threshold s))"
    and g3: "py_get ?m ''origin_hash'' = Some (PyStr (sentinel.origin_hash s))"
    and g4: "py_get (report_py s now) ''audit_trail'' = Some (PyList ?evs)"
    by (simp_all add: py_get_def report_py_def)
  have g5: "length ?evs = length calls" using len by simp
  have "map (\<lambda>e. py_get e ''step_id'') ?evs = map (\<lambda>e. Some (sid_py (step_id e))) (history s)"
    by (simp add: py_get_def event_py_def)
  also have "\<dots> = map (\<lambda>x. Some (sid_py x)) (map step_id (history s))" by (simp add: comp_def)
  also have "\<dots> = map (\<lambda>c. Some (sid_py (fst (snd c)))) calls" by (simp add: sid comp_def)
  finally have g6: "map (\<lambda>e. py_get e ''step_id'') ?evs = map (\<lambda>c. Some (sid_py (fst (snd c)))) calls" .
  have "map (\<lambda>e. py_get e ''status'') ?evs = map (\<lambda>x. Some (PyStr x)) (map status (history s))"
    by (simp add: py_get_def event_py_def comp_def)
  also have "\<dots> = map (\<lambda>out. Some (PyStr (label out))) outs" by (simp add: l comp_def)
  finally have g7: "map (\<lambda>e. py_get e ''status'') ?evs = map (\<lambda>out. Some (PyStr (label out))) outs" .
  from doc g1 g2 g3 g4 g5 g6 g7 show ?thesis by blast
qed

theorem export_report_roundtrip_witness:
  "\<exists>doc r m evs.
      export_report (\<lambda>_. True) Map.empty
        \<lparr>origin_tii = [1, 0], threshold = 1 / 100, origin_hash = ''h'',
         history = [\<lparr>timestamp = ''t1'', step_id = Some (PyInt 1), drift_raw = 0, drift_avg = 0,
                     threshold = 1 / 100, status = ''COHERENT'', origin_hash = ''h'',
                     action_required = False\<rparr>,
                    \<lparr>timestamp = ''t2'', step_id = None, drift_raw = 1, drift_avg = 1 / 2,
                     threshold = 1 / 100, status = ''DRIFT_ALERT'', origin_hash = ''h'',
                     action_required = True\<rparr>],
         recent_drifts = \<lparr>maxlen = 5, items = [0, 1]\<rparr>\<rparr>
        ''liora_report.json'' ''t3''
        = ([''liora_report.json'' \<mapsto> Document doc], Inr ())
      \<and> json_load (Document doc) = Inr r
      \<and> py_get r ''meta'' = Some m
      \<and> py_get m ''threshold'' = Some (PyFloat (1 / 100))
      \<and> py_get m ''origin_hash'' = Some (PyStr ''h'')
      \<and> py_get r ''audit_trail'' = Some (PyList evs)
      \<and> length evs = 2
      \<and> map (\<lambda>e. py_get e ''step_id'') evs = [Some (PyInt 1), Some PyNone]
      \<and> map (\<lambda>e. py_get e ''status'') evs = [Some (PyStr ''COHERENT''), Some (PyStr ''DRIFT_ALERT'')]"
proof -
  let ?ini = "\<lparr>origin_tii = [1, 0], threshold = 1 / 100, origin_hash = ''h'',
         history = ([] :: pyval event list), recent_drifts = \<lparr>maxlen = 5, items = []\<rparr>\<rparr>"
  let ?calls = "[([1, 0], Some (PyInt 1), ''t1''), ([0, 1], None, ''t2'')]"
  let ?fin = "\<lparr>origin_tii = [1, 0], threshold = 1 / 100, origin_hash = ''h'',
         history = [\<lparr>timestamp = ''t1'', step_id = Some (PyInt 1), drift_raw = 0, drift_avg = 0,
                     threshold = 1 / 100, status = ''COHERENT'', origin_hash = ''h'',
                     action_required = False\<rparr>,
                    \<lparr>timestamp = ''t2'', step_id = None, drift_raw = 1, drift_avg = 1 / 2,
                     threshold = 1 / 100, status = ''DRIFT_ALERT'', origin_hash = ''h'',
                     action_required = True\<rparr>],
         recent_drifts = \<lparr>maxlen = 5, items = [0, 1]\<rparr>\<rparr>"
  have h1: "LioraSentinel (\<lambda>_. ''h'') [1, 0] (1 / 100) 5 = Inr ?ini"
    by (simp add: LioraSentinel_def normalize_v_def linalg_norm_e1 stable_vector_hash_def)
  have h2: "observe_all ?ini ?calls = (?fin, map Inr [(True, 0, 0), (False, 1, 1 / 2)])"
    by (simp add: eval_defs linalg_norm_e1)
  have h3: "\<forall>c\<in>set ?calls. json_native (sid_py (fst (snd c)))" by (simp add: sid_py_def)
  have h4: "(\<lambda>_ :: string. True) ''liora_report.json''" by simp
  from export_report_roundtrip [OF h1 h2 h3, of "\<lambda>_. True" "''liora_report.json''" Map.empty "''t3''"]
  show ?thesis by (simp add: label_def sid_py_def numeral_2_eq_2)
qed

text \<open>
  For other step identifiers the report read back does not match, or there is none. After
  a successful call of \<open>observe\<close> with the tuple \<open>(1, 2)\<close> as step identifier, the report
  read back has the list \<open>[1, 2]\<close> in its place, which is another value. With a step
  identifier the encoder has no rule for in the trail, \<open>export_report\<close> raises, the file
  is left truncated, and reading it back fails.
\<close>

theorem export_report_tuple_step_id:
  "observe
     \<lparr>origin_tii = [1, 0], threshold = 1 / 100, origin_hash = ''h'',
      history = [], recent_drifts = \<lparr>maxlen = 5, items = []\<rparr>\<rparr>
     [1, 0] (Some (PyTuple [PyInt 1, PyInt 2])) ''t1''
   = (\<lparr>origin_tii = [1, 0], threshold = 1 / 100, origin_hash = ''h'',
       history = [\<lparr>timestamp = ''t1'', step_id = Some (PyTuple [PyInt 1, PyInt 2]),
                   drift_raw = 0, drift_avg = 0, threshold = 1 / 100, status = ''COHERENT'',
                   origin_hash = ''h'', action_required = False\<rparr>],
       recent_drifts = \<lparr>maxlen = 5, items = [0]\<rparr>\<rparr>, Inr (True, 0, 0))
   \<and> map_sum id trail_step_ids
       (read_report
          (fst (export_report (\<lambda>_. True) Map.empty
             \<lparr>origin_tii = [1, 0], threshold = 1 / 100, origin_hash = ''h'',
              history = [\<lparr>timestamp = ''t1'', step_id = Some (PyTuple [PyInt 1, PyInt 2]),
                          drift_raw = 0, drift_avg = 0, threshold = 1 / 100,
                          status = ''COHERENT'', origin_hash = ''h'',
                          action_required = False\<rparr>],
              recent_drifts = \<lparr>maxlen = 5, items = [0]\<rparr>\<rparr>
             ''liora_report.json'' ''t2''))
          ''liora_report.json'')
     = Inr [Some (PyList [PyInt 1, PyInt 2])]
   \<and> PyList [PyInt 1, PyInt 2] \<noteq> PyTuple [PyInt 1, PyInt 2]
   \<and> export_report (\<lambda>_. True) Map.empty
         \<lparr>origin_tii = [1, 0], threshold = 1 / 100, origin_hash = ''h'',
          history = [\<lparr>timestamp = ''t1'', step_id = Some PyObject,
                      drift_raw = 0, drift_avg = 0, threshold = 1 / 100,
                      status = ''COHERENT'', origin_hash = ''h'',
                      action_required = False\<rparr>],
          recent_drifts = \<lparr>maxlen = 5, items = [0]\<rparr>\<rparr>
         ''liora_report.json'' ''t2''
     = ([''liora_report.json'' \<mapsto> Truncated], Inl NotSerializable)
   \<and> read_report [''liora_report.json'' \<mapsto> Truncated] ''liora_report.json'' = Inl DecodeError"
  by (simp add: eval_defs linalg_norm_e1 export_report_def report_py_def event_py_def sid_py_def
      read_report_def json_load_def trail_step_ids_def py_get_def)

end
